theory Spec2Isabelle
  imports Main "HOL-Library.Word"
begin

unbundle bit_operations_syntax

section \<open>Keccak-f[1600] and the sponge (fips202.c)\<close>

type_synonym u8 = "8 word"
type_synonym u16 = "16 word"
type_synonym u32 = "32 word"
type_synonym u64 = "64 word"

text \<open>The macro \<^verbatim>\<open>ROL(a, offset) ((a << offset) ^ (a >> (64-offset)))\<close> on
  \<^verbatim>\<open>uint64_t\<close>. The source only uses offsets from 1 to 63.\<close>

definition ROL :: "u64 \<Rightarrow> nat \<Rightarrow> u64" where
  "ROL a offset = (push_bit offset a) XOR (drop_bit (64 - offset) a)"

definition NROUNDS :: nat where
  "NROUNDS = 24"

definition KeccakF_RoundConstants :: "u64 list" where
  "KeccakF_RoundConstants =
    [0x0000000000000001, 0x0000000000008082, 0x800000000000808a, 0x8000000080008000,
     0x000000000000808b, 0x0000000080000001, 0x8000000080008081, 0x8000000000008009,
     0x000000000000008a, 0x0000000000000088, 0x0000000080008009, 0x000000008000000a,
     0x000000008000808b, 0x800000000000008b, 0x8000000000008089, 0x8000000000008003,
     0x8000000000008002, 0x8000000000000080, 0x000000000000800a, 0x800000008000000a,
     0x8000000080008081, 0x8000000000008080, 0x0000000080000001, 0x8000000080008008]"

text \<open>The body of the loop of \<^verbatim>\<open>KeccakF1600_StatePermute\<close> handles two rounds. Its
  first half reads the locals \<^verbatim>\<open>Aba .. Asu\<close> and leaves round \<^verbatim>\<open>round\<close> in
  \<^verbatim>\<open>Eba .. Esu\<close>; the second half reads those and leaves round \<^verbatim>\<open>round+1\<close> in
  \<^verbatim>\<open>Aba .. Asu\<close>. The temporaries \<^verbatim>\<open>BC*\<close> and \<^verbatim>\<open>D*\<close> are written before
  they are read in each half. Every assignment of the source is one binding, in the
  source's order; a later binding of a name shadows the earlier one, as the assignment
  overwrites the variable. The 25 locals are passed as a list in the order of
  \<^verbatim>\<open>state[0] .. state[24]\<close>.\<close>

definition KeccakF1600_round_AtoE :: "nat \<Rightarrow> u64 list \<Rightarrow> u64 list" where
  "KeccakF1600_round_AtoE round st =
    (let Aba = st ! 0;
         Abe = st ! 1;
         Abi = st ! 2;
         Abo = st ! 3;
         Abu = st ! 4;
         Aga = st ! 5;
         Age = st ! 6;
         Agi = st ! 7;
         Ago = st ! 8;
         Agu = st ! 9;
         Aka = st ! 10;
         Ake = st ! 11;
         Aki = st ! 12;
         Ako = st ! 13;
         Aku = st ! 14;
         Ama = st ! 15;
         Ame = st ! 16;
         Ami = st ! 17;
         Amo = st ! 18;
         Amu = st ! 19;
         Asa = st ! 20;
         Ase = st ! 21;
         Asi = st ! 22;
         Aso = st ! 23;
         Asu = st ! 24;
         BCa = (((Aba XOR Aga) XOR Aka) XOR Ama) XOR Asa;
         BCe = (((Abe XOR Age) XOR Ake) XOR Ame) XOR Ase;
         BCi = (((Abi XOR Agi) XOR Aki) XOR Ami) XOR Asi;
         BCo = (((Abo XOR Ago) XOR Ako) XOR Amo) XOR Aso;
         BCu = (((Abu XOR Agu) XOR Aku) XOR Amu) XOR Asu;
         Da = BCu XOR ROL BCe 1;
         De = BCa XOR ROL BCi 1;
         Di = BCe XOR ROL BCo 1;
         Do = BCi XOR ROL BCu 1;
         Du = BCo XOR ROL BCa 1;
         Aba = Aba XOR Da;
         Age = Age XOR De;
         Aki = Aki XOR Di;
         Amo = Amo XOR Do;
         Asu = Asu XOR Du;
         Abo = Abo XOR Do;
         Agu = Agu XOR Du;
         Aka = Aka XOR Da;
         Ame = Ame XOR De;
         Asi = Asi XOR Di;
         Abe = Abe XOR De;
         Agi = Agi XOR Di;
         Ako = Ako XOR Do;
         Amu = Amu XOR Du;
         Asa = Asa XOR Da;
         Abu = Abu XOR Du;
         Aga = Aga XOR Da;
         Ake = Ake XOR De;
         Ami = Ami XOR Di;
         Aso = Aso XOR Do;
         Abi = Abi XOR Di;
         Ago = Ago XOR Do;
         Aku = Aku XOR Du;
         Ama = Ama XOR Da;
         Ase = Ase XOR De;
         BCa = Aba;
         BCe = ROL Age 44;
         BCi = ROL Aki 43;
         BCo = ROL Amo 21;
         BCu = ROL Asu 14;
         Eba = BCa XOR ((NOT BCe) AND BCi);
         Eba = Eba XOR (KeccakF_RoundConstants ! round);
         Ebe = BCe XOR ((NOT BCi) AND BCo);
         Ebi = BCi XOR ((NOT BCo) AND BCu);
         Ebo = BCo XOR ((NOT BCu) AND BCa);
         Ebu = BCu XOR ((NOT BCa) AND BCe);
         BCa = ROL Abo 28;
         BCe = ROL Agu 20;
         BCi = ROL Aka 3;
         BCo = ROL Ame 45;
         BCu = ROL Asi 61;
         Ega = BCa XOR ((NOT BCe) AND BCi);
         Ege = BCe XOR ((NOT BCi) AND BCo);
         Egi = BCi XOR ((NOT BCo) AND BCu);
         Ego = BCo XOR ((NOT BCu) AND BCa);
         Egu = BCu XOR ((NOT BCa) AND BCe);
         BCa = ROL Abe 1;
         BCe = ROL Agi 6;
         BCi = ROL Ako 25;
         BCo = ROL Amu 8;
         BCu = ROL Asa 18;
         Eka = BCa XOR ((NOT BCe) AND BCi);
         Eke = BCe XOR ((NOT BCi) AND BCo);
         Eki = BCi XOR ((NOT BCo) AND BCu);
         Eko = BCo XOR ((NOT BCu) AND BCa);
         Eku = BCu XOR ((NOT BCa) AND BCe);
         BCa = ROL Abu 27;
         BCe = ROL Aga 36;
         BCi = ROL Ake 10;
         BCo = ROL Ami 15;
         BCu = ROL Aso 56;
         Ema = BCa XOR ((NOT BCe) AND BCi);
         Eme = BCe XOR ((NOT BCi) AND BCo);
         Emi = BCi XOR ((NOT BCo) AND BCu);
         Emo = BCo XOR ((NOT BCu) AND BCa);
         Emu = BCu XOR ((NOT BCa) AND BCe);
         BCa = ROL Abi 62;
         BCe = ROL Ago 55;
         BCi = ROL Aku 39;
         BCo = ROL Ama 41;
         BCu = ROL Ase 2;
         Esa = BCa XOR ((NOT BCe) AND BCi);
         Ese = BCe XOR ((NOT BCi) AND BCo);
         Esi = BCi XOR ((NOT BCo) AND BCu);
         Eso = BCo XOR ((NOT BCu) AND BCa);
         Esu = BCu XOR ((NOT BCa) AND BCe)
     in [Eba, Ebe, Ebi, Ebo, Ebu, Ega, Ege, Egi, Ego, Egu, Eka, Eke, Eki, Eko, Eku, Ema, Eme, Emi, Emo, Emu, Esa, Ese, Esi, Eso, Esu])"

definition KeccakF1600_round_EtoA :: "nat \<Rightarrow> u64 list \<Rightarrow> u64 list" where
  "KeccakF1600_round_EtoA round st =
    (let Eba = st ! 0;
         Ebe = st ! 1;
         Ebi = st ! 2;
         Ebo = st ! 3;
         Ebu = st ! 4;
         Ega = st ! 5;
         Ege = st ! 6;
         Egi = st ! 7;
         Ego = st ! 8;
         Egu = st ! 9;
         Eka = st ! 10;
         Eke = st ! 11;
         Eki = st ! 12;
         Eko = st ! 13;
         Eku = st ! 14;
         Ema = st ! 15;
         Eme = st ! 16;
         Emi = st ! 17;
         Emo = st ! 18;
         Emu = st ! 19;
         Esa = st ! 20;
         Ese = st ! 21;
         Esi = st ! 22;
         Eso = st ! 23;
         Esu = st ! 24;
         BCa = (((Eba XOR Ega) XOR Eka) XOR Ema) XOR Esa;
         BCe = (((Ebe XOR Ege) XOR Eke) XOR Eme) XOR Ese;
         BCi = (((Ebi XOR Egi) XOR Eki) XOR Emi) XOR Esi;
         BCo = (((Ebo XOR Ego) XOR Eko) XOR Emo) XOR Eso;
         BCu = (((Ebu XOR Egu) XOR Eku) XOR Emu) XOR Esu;
         Da = BCu XOR ROL BCe 1;
         De = BCa XOR ROL BCi 1;
         Di = BCe XOR ROL BCo 1;
         Do = BCi XOR ROL BCu 1;
         Du = BCo XOR ROL BCa 1;
         Eba = Eba XOR Da;
         Ege = Ege XOR De;
         Eki = Eki XOR Di;
         Emo = Emo XOR Do;
         Esu = Esu XOR Du;
         Ebo = Ebo XOR Do;
         Egu = Egu XOR Du;
         Eka = Eka XOR Da;
         Eme = Eme XOR De;
         Esi = Esi XOR Di;
         Ebe = Ebe XOR De;
         Egi = Egi XOR Di;
         Eko = Eko XOR Do;
         Emu = Emu XOR Du;
         Esa = Esa XOR Da;
         Ebu = Ebu XOR Du;
         Ega = Ega XOR Da;
         Eke = Eke XOR De;
         Emi = Emi XOR Di;
         Eso = Eso XOR Do;
         Ebi = Ebi XOR Di;
         Ego = Ego XOR Do;
         Eku = Eku XOR Du;
         Ema = Ema XOR Da;
         Ese = Ese XOR De;
         BCa = Eba;
         BCe = ROL Ege 44;
         BCi = ROL Eki 43;
         BCo = ROL Emo 21;
         BCu = ROL Esu 14;
         Aba = BCa XOR ((NOT BCe) AND BCi);
         Aba = Aba XOR (KeccakF_RoundConstants ! (round + 1));
         Abe = BCe XOR ((NOT BCi) AND BCo);
         Abi = BCi XOR ((NOT BCo) AND BCu);
         Abo = BCo XOR ((NOT BCu) AND BCa);
         Abu = BCu XOR ((NOT BCa) AND BCe);
         BCa = ROL Ebo 28;
         BCe = ROL Egu 20;
         BCi = ROL Eka 3;
         BCo = ROL Eme 45;
         BCu = ROL Esi 61;
         Aga = BCa XOR ((NOT BCe) AND BCi);
         Age = BCe XOR ((NOT BCi) AND BCo);
         Agi = BCi XOR ((NOT BCo) AND BCu);
         Ago = BCo XOR ((NOT BCu) AND BCa);
         Agu = BCu XOR ((NOT BCa) AND BCe);
         BCa = ROL Ebe 1;
         BCe = ROL Egi 6;
         BCi = ROL Eko 25;
         BCo = ROL Emu 8;
         BCu = ROL Esa 18;
         Aka = BCa XOR ((NOT BCe) AND BCi);
         Ake = BCe XOR ((NOT BCi) AND BCo);
         Aki = BCi XOR ((NOT BCo) AND BCu);
         Ako = BCo XOR ((NOT BCu) AND BCa);
         Aku = BCu XOR ((NOT BCa) AND BCe);
         BCa = ROL Ebu 27;
         BCe = ROL Ega 36;
         BCi = ROL Eke 10;
         BCo = ROL Emi 15;
         BCu = ROL Eso 56;
         Ama = BCa XOR ((NOT BCe) AND BCi);
         Ame = BCe XOR ((NOT BCi) AND BCo);
         Ami = BCi XOR ((NOT BCo) AND BCu);
         Amo = BCo XOR ((NOT BCu) AND BCa);
         Amu = BCu XOR ((NOT BCa) AND BCe);
         BCa = ROL Ebi 62;
         BCe = ROL Ego 55;
         BCi = ROL Eku 39;
         BCo = ROL Ema 41;
         BCu = ROL Ese 2;
         Asa = BCa XOR ((NOT BCe) AND BCi);
         Ase = BCe XOR ((NOT BCi) AND BCo);
         Asi = BCi XOR ((NOT BCo) AND BCu);
         Aso = BCo XOR ((NOT BCu) AND BCa);
         Asu = BCu XOR ((NOT BCa) AND BCe)
     in [Aba, Abe, Abi, Abo, Abu, Aga, Age, Agi, Ago, Agu, Aka, Ake, Aki, Ako, Aku, Ama, Ame, Ami, Amo, Amu, Asa, Ase, Asi, Aso, Asu])"

definition KeccakF1600_double_round :: "nat \<Rightarrow> u64 list \<Rightarrow> u64 list" where
  "KeccakF1600_double_round round st =
     KeccakF1600_round_EtoA round (KeccakF1600_round_AtoE round st)"

text \<open>\<^verbatim>\<open>for(round = 0; round < NROUNDS; round += 2)\<close>\<close>

function KeccakF1600_loop :: "nat \<Rightarrow> u64 list \<Rightarrow> u64 list" where
  "KeccakF1600_loop round st =
     (if round < NROUNDS then KeccakF1600_loop (round + 2) (KeccakF1600_double_round round st)
      else st)"
  by pat_completeness auto
termination
  by (relation "measure (\<lambda>(round, st). NROUNDS - round)") auto

definition KeccakF1600_StatePermute :: "u64 list \<Rightarrow> u64 list" where
  "KeccakF1600_StatePermute state = KeccakF1600_loop 0 state"

subsection \<open>Bytes and lanes\<close>

text \<open>\<^verbatim>\<open>for(i = a; i < n; ++i) body\<close> over the state the body changes.\<close>

function for_upto :: "nat \<Rightarrow> nat \<Rightarrow> (nat \<Rightarrow> 's \<Rightarrow> 's) \<Rightarrow> 's \<Rightarrow> 's" where
  "for_upto i n body s = (if i < n then for_upto (i + 1) n body (body i s) else s)"
  by pat_completeness auto
termination
  by (relation "measure (\<lambda>(i, n, body, s). n - i)") auto

declare for_upto.simps [simp del]

text \<open>\<^verbatim>\<open>load64\<close> reads \<^verbatim>\<open>x[0] .. x[7]\<close>; \<^verbatim>\<open>store64\<close> writes eight bytes, returned
  here as a list.\<close>

definition load64 :: "u8 list \<Rightarrow> u64" where
  "load64 x = for_upto 0 8 (\<lambda>i r. r OR push_bit (8 * i) (ucast (x ! i))) 0"

definition store64 :: "u64 \<Rightarrow> u8 list" where
  "store64 u = for_upto 0 8 (\<lambda>i x. x @ [ucast (drop_bit (8 * i) u)]) []"

text \<open>\<^verbatim>\<open>s[i/8] ^= (uint64_t)b << 8*(i%8)\<close> for one byte, and the loops
  \<^verbatim>\<open>for(i = pos; ...; i++) s[i/8] ^= (uint64_t)*in++ << 8*(i%8)\<close> that consume the bytes
  of a block one after the other. The state has 25 lanes and every caller passes a rate
  of at most 168, so \<^verbatim>\<open>i/8\<close> stays below 25.\<close>

definition xor_byte :: "u64 list \<Rightarrow> nat \<Rightarrow> u8 \<Rightarrow> u64 list" where
  "xor_byte s i b = s[i div 8 := (s ! (i div 8)) XOR push_bit (8 * (i mod 8)) (ucast b)]"

fun xor_bytes :: "u64 list \<Rightarrow> nat \<Rightarrow> u8 list \<Rightarrow> u64 list" where
  "xor_bytes s i [] = s"
| "xor_bytes s i (b # bs) = xor_bytes (xor_byte s i b) (i + 1) bs"

subsection \<open>The sponge\<close>

definition keccak_init :: "u64 list" where
  "keccak_init = replicate 25 0"

text \<open>The input is the list of the \<^verbatim>\<open>inlen\<close> bytes at \<^verbatim>\<open>in\<close>. Positions, rates and
  lengths are natural numbers: a buffer is far shorter than \<open>2 ^ 64\<close> bytes, so the
  \<^verbatim>\<open>size_t\<close> sum \<^verbatim>\<open>pos+inlen\<close> does not wrap. The callers keep \<^verbatim>\<open>pos\<close> at most
  \<^verbatim>\<open>r\<close>; with a larger \<^verbatim>\<open>pos\<close> the \<^verbatim>\<open>unsigned\<close> difference \<^verbatim>\<open>r-pos\<close> of the source
  wraps and the loop reads past the input, which this model does not follow (its
  \<open>r - pos\<close> is then 0). The loop does not end when \<^verbatim>\<open>r\<close> is 0, hence the option.\<close>

partial_function (option) keccak_absorb ::
  "u64 list \<Rightarrow> nat \<Rightarrow> nat \<Rightarrow> u8 list \<Rightarrow> (u64 list \<times> nat) option" where
  "keccak_absorb s pos r inp =
     (if pos + length inp \<ge> r
      then keccak_absorb (KeccakF1600_StatePermute (xor_bytes s pos (take (r - pos) inp))) 0 r
             (drop (r - pos) inp)
      else Some (xor_bytes s pos inp, pos + length inp))"

text \<open>All callers pass a rate of at least 8, so \<^verbatim>\<open>r/8-1\<close> does not wrap.\<close>

definition keccak_finalize :: "u64 list \<Rightarrow> nat \<Rightarrow> nat \<Rightarrow> u8 \<Rightarrow> u64 list" where
  "keccak_finalize s pos r p =
     (let s = xor_byte s pos p
      in s[r div 8 - 1 := (s ! (r div 8 - 1)) XOR push_bit 63 1])"

text \<open>\<^verbatim>\<open>keccak_squeeze\<close> returns the bytes written to \<^verbatim>\<open>out\<close>, the state and the new
  position. The inner loop \<^verbatim>\<open>for(i=pos; i < r && i < pos+outlen; i++)\<close> ends with
  \<^verbatim>\<open>i\<close> at \<open>max pos (min r (pos + outlen))\<close>.\<close>

partial_function (option) keccak_squeeze_loop ::
  "u8 list \<Rightarrow> nat \<Rightarrow> u64 list \<Rightarrow> nat \<Rightarrow> nat \<Rightarrow> (u8 list \<times> u64 list \<times> nat) option" where
  "keccak_squeeze_loop out outlen s pos r =
     (if outlen \<noteq> 0 then
        (let (s, pos) = (if pos = r then (KeccakF1600_StatePermute s, 0) else (s, pos));
             i = max pos (min r (pos + outlen))
         in keccak_squeeze_loop
              (out @ map (\<lambda>i. ucast (drop_bit (8 * (i mod 8)) (s ! (i div 8)))) [pos..<i])
              (outlen - (i - pos)) s i r)
      else Some (out, s, pos))"

definition keccak_squeeze ::
  "nat \<Rightarrow> u64 list \<Rightarrow> nat \<Rightarrow> nat \<Rightarrow> (u8 list \<times> u64 list \<times> nat) option" where
  "keccak_squeeze outlen s pos r = keccak_squeeze_loop [] outlen s pos r"

text \<open>\<^verbatim>\<open>keccak_absorb_once\<close>: the loop over the full blocks, which returns the state
  and the input left, then the last bytes, the domain byte and the final bit.\<close>

partial_function (option) keccak_absorb_once_blocks ::
  "u64 list \<Rightarrow> nat \<Rightarrow> u8 list \<Rightarrow> (u64 list \<times> u8 list) option" where
  "keccak_absorb_once_blocks s r inp =
     (if length inp \<ge> r
      then keccak_absorb_once_blocks
             (KeccakF1600_StatePermute
               (for_upto 0 (r div 8) (\<lambda>i s. s[i := (s ! i) XOR load64 (drop (8 * i) inp)]) s))
             r (drop r inp)
      else Some (s, inp))"

definition keccak_absorb_once :: "nat \<Rightarrow> u8 list \<Rightarrow> u8 \<Rightarrow> u64 list option" where
  "keccak_absorb_once r inp p =
     (case keccak_absorb_once_blocks (replicate 25 0) r inp of
        None \<Rightarrow> None
      | Some (s, inp) \<Rightarrow>
          (let s = xor_bytes s 0 inp;
               i = length inp;
               s = xor_byte s i p
           in Some (s[(r - 1) div 8 := (s ! ((r - 1) div 8)) XOR push_bit 63 1])))"

text \<open>\<^verbatim>\<open>keccak_squeezeblocks\<close> returns the bytes written and the state. Each block
  stores \<^verbatim>\<open>r/8\<close> lanes and advances \<^verbatim>\<open>out\<close> by \<^verbatim>\<open>r\<close>; every rate in use is a
  multiple of 8, so the blocks are adjacent.\<close>

fun keccak_squeezeblocks :: "nat \<Rightarrow> u64 list \<Rightarrow> nat \<Rightarrow> u8 list \<times> u64 list" where
  "keccak_squeezeblocks 0 s r = ([], s)"
| "keccak_squeezeblocks (Suc nblocks) s r =
     (let s = KeccakF1600_StatePermute s;
          block = for_upto 0 (r div 8) (\<lambda>i out. out @ store64 (s ! i)) [];
          (out, s) = keccak_squeezeblocks nblocks s r
      in (block @ out, s))"

subsection \<open>SHAKE and SHA3\<close>

text \<open>Modelled from the spec: fips202.h, which defines the rates, is not part of the
  sources at hand. The spec gives \<^verbatim>\<open>SHAKE128_RATE\<close> = 168, \<^verbatim>\<open>SHAKE256_RATE\<close> = 136,
  and the rates 136 for SHA3-256 and 72 for SHA3-512.\<close>

definition SHAKE128_RATE :: nat where
  "SHAKE128_RATE = 168"

definition SHAKE256_RATE :: nat where
  "SHAKE256_RATE = 136"

definition SHA3_256_RATE :: nat where
  "SHA3_256_RATE = 136"

definition SHA3_512_RATE :: nat where
  "SHA3_512_RATE = 72"

text \<open>\<^verbatim>\<open>keccak_state\<close> holds the lanes \<^verbatim>\<open>uint64_t s[25]\<close> and the cursor \<^verbatim>\<open>unsigned int pos\<close>\<close>

record keccak_state =
  s :: "u64 list"
  pos :: nat

definition shake128_init :: keccak_state where
  "shake128_init = \<lparr>s = keccak_init, pos = 0\<rparr>"

definition shake128_absorb :: "keccak_state \<Rightarrow> u8 list \<Rightarrow> keccak_state option" where
  "shake128_absorb state inp =
     map_option (\<lambda>(s', pos'). \<lparr>s = s', pos = pos'\<rparr>)
       (keccak_absorb (s state) (pos state) SHAKE128_RATE inp)"

definition shake128_finalize :: "keccak_state \<Rightarrow> keccak_state" where
  "shake128_finalize state =
     \<lparr>s = keccak_finalize (s state) (pos state) SHAKE128_RATE 0x1F, pos = SHAKE128_RATE\<rparr>"

definition shake128_squeeze :: "nat \<Rightarrow> keccak_state \<Rightarrow> (u8 list \<times> keccak_state) option" where
  "shake128_squeeze outlen state =
     map_option (\<lambda>(out, s', pos'). (out, \<lparr>s = s', pos = pos'\<rparr>))
       (keccak_squeeze outlen (s state) (pos state) SHAKE128_RATE)"

definition shake128_absorb_once :: "u8 list \<Rightarrow> keccak_state option" where
  "shake128_absorb_once inp =
     map_option (\<lambda>s'. \<lparr>s = s', pos = SHAKE128_RATE\<rparr>)
       (keccak_absorb_once SHAKE128_RATE inp 0x1F)"

definition shake128_squeezeblocks :: "nat \<Rightarrow> keccak_state \<Rightarrow> u8 list \<times> keccak_state" where
  "shake128_squeezeblocks nblocks state =
     (let (out, s') = keccak_squeezeblocks nblocks (s state) SHAKE128_RATE
      in (out, state\<lparr>s := s'\<rparr>))"

definition shake256_init :: keccak_state where
  "shake256_init = \<lparr>s = keccak_init, pos = 0\<rparr>"

definition shake256_absorb :: "keccak_state \<Rightarrow> u8 list \<Rightarrow> keccak_state option" where
  "shake256_absorb state inp =
     map_option (\<lambda>(s', pos'). \<lparr>s = s', pos = pos'\<rparr>)
       (keccak_absorb (s state) (pos state) SHAKE256_RATE inp)"

definition shake256_finalize :: "keccak_state \<Rightarrow> keccak_state" where
  "shake256_finalize state =
     \<lparr>s = keccak_finalize (s state) (pos state) SHAKE256_RATE 0x1F, pos = SHAKE256_RATE\<rparr>"

definition shake256_squeeze :: "nat \<Rightarrow> keccak_state \<Rightarrow> (u8 list \<times> keccak_state) option" where
  "shake256_squeeze outlen state =
     map_option (\<lambda>(out, s', pos'). (out, \<lparr>s = s', pos = pos'\<rparr>))
       (keccak_squeeze outlen (s state) (pos state) SHAKE256_RATE)"

definition shake256_absorb_once :: "u8 list \<Rightarrow> keccak_state option" where
  "shake256_absorb_once inp =
     map_option (\<lambda>s'. \<lparr>s = s', pos = SHAKE256_RATE\<rparr>)
       (keccak_absorb_once SHAKE256_RATE inp 0x1F)"

definition shake256_squeezeblocks :: "nat \<Rightarrow> keccak_state \<Rightarrow> u8 list \<times> keccak_state" where
  "shake256_squeezeblocks nblocks state =
     (let (out, s') = keccak_squeezeblocks nblocks (s state) SHAKE256_RATE
      in (out, state\<lparr>s := s'\<rparr>))"

text \<open>The one-shot functions return the \<^verbatim>\<open>outlen\<close> bytes written to \<^verbatim>\<open>out\<close>.\<close>

definition shake128 :: "nat \<Rightarrow> u8 list \<Rightarrow> u8 list option" where
  "shake128 outlen inp =
     (case shake128_absorb_once inp of
        None \<Rightarrow> None
      | Some state \<Rightarrow>
          (let nblocks = outlen div SHAKE128_RATE;
               (out1, state) = shake128_squeezeblocks nblocks state;
               outlen = outlen - nblocks * SHAKE128_RATE
           in map_option (\<lambda>(out2, state). out1 @ out2) (shake128_squeeze outlen state)))"

definition shake256 :: "nat \<Rightarrow> u8 list \<Rightarrow> u8 list option" where
  "shake256 outlen inp =
     (case shake256_absorb_once inp of
        None \<Rightarrow> None
      | Some state \<Rightarrow>
          (let nblocks = outlen div SHAKE256_RATE;
               (out1, state) = shake256_squeezeblocks nblocks state;
               outlen = outlen - nblocks * SHAKE256_RATE
           in map_option (\<lambda>(out2, state). out1 @ out2) (shake256_squeeze outlen state)))"

definition sha3_256 :: "u8 list \<Rightarrow> u8 list option" where
  "sha3_256 inp =
     map_option (\<lambda>s.
         let s = KeccakF1600_StatePermute s
         in for_upto 0 4 (\<lambda>i h. h @ store64 (s ! i)) [])
       (keccak_absorb_once SHA3_256_RATE inp 0x06)"

definition sha3_512 :: "u8 list \<Rightarrow> u8 list option" where
  "sha3_512 inp =
     map_option (\<lambda>s.
         let s = KeccakF1600_StatePermute s
         in for_upto 0 8 (\<lambda>i h. h @ store64 (s ! i)) [])
       (keccak_absorb_once SHA3_512_RATE inp 0x06)"

section \<open>Parameters (params.h)\<close>

text \<open>\<^verbatim>\<open>DILITHIUM_MODE\<close> is set in config.h; params.h defines \<^verbatim>\<open>K\<close> and \<^verbatim>\<open>L\<close>
  for the values 2, 3 and 5 only.\<close>

datatype dilithium_mode = MODE2 | MODE3 | MODE5

fun K :: "dilithium_mode \<Rightarrow> nat" where
  "K MODE2 = 4"
| "K MODE3 = 6"
| "K MODE5 = 8"

fun L :: "dilithium_mode \<Rightarrow> nat" where
  "L MODE2 = 4"
| "L MODE3 = 5"
| "L MODE5 = 7"

definition N :: nat where
  "N = 256"

section \<open>Vectors of polynomials (polyvec.c)\<close>

text \<open>\<^verbatim>\<open>typedef struct { int32_t coeffs[N]; } poly;\<close> (poly.h). The vector types
  \<^verbatim>\<open>polyvecl\<close> and \<^verbatim>\<open>polyveck\<close> hold \<^verbatim>\<open>L\<close> and \<^verbatim>\<open>K\<close> polynomials in their
  field \<^verbatim>\<open>vec\<close>; a vector is the list of its polynomials and the matrix
  \<^verbatim>\<open>polyvecl mat[K]\<close> the list of its rows. An \<^verbatim>\<open>int32_t\<close> is a 32-bit word, read as a signed
  number by \<^const>\<open>sint\<close>.\<close>

type_synonym int32 = "32 word"

record poly =
  coeffs :: "int32 list"

type_synonym polyvecl = "poly list"
type_synonym polyveck = "poly list"

text \<open>The functions of poly.c are declared in poly.h and their code is not part of the
  sources at hand. Each function below takes the ones it calls as its first arguments: a
  function of the inputs of the C function that returns the polynomial it writes (and
  the value it returns, if any).

  The nonce argument of \<^verbatim>\<open>poly_uniform\<close> is a \<^verbatim>\<open>uint16_t\<close>: the \<^verbatim>\<open>unsigned int\<close>
  value \<^verbatim>\<open>(i << 8) + j\<close> is truncated to 16 bits at the call.\<close>

definition matrix_nonce :: "nat \<Rightarrow> nat \<Rightarrow> u16" where
  "matrix_nonce i j = ucast (push_bit 8 (of_nat i :: u32) + of_nat j)"

definition polyvec_matrix_expand ::
  "(u8 list \<Rightarrow> u16 \<Rightarrow> poly) \<Rightarrow> dilithium_mode \<Rightarrow> polyvecl list \<Rightarrow> u8 list \<Rightarrow> polyvecl list" where
  "polyvec_matrix_expand poly_uniform m mat rho =
     for_upto 0 (K m) (\<lambda>i mat.
       for_upto 0 (L m) (\<lambda>j mat.
         mat[i := (mat ! i)[j := poly_uniform rho (matrix_nonce i j)]]) mat) mat"

text \<open>The local \<^verbatim>\<open>poly t\<close> is written before it is read in every iteration, so the
  loop state is the output \<^verbatim>\<open>w\<close> alone.\<close>

definition polyvecl_pointwise_acc_montgomery ::
  "(poly \<Rightarrow> poly \<Rightarrow> poly) \<Rightarrow> (poly \<Rightarrow> poly \<Rightarrow> poly) \<Rightarrow> dilithium_mode \<Rightarrow>
   polyvecl \<Rightarrow> polyvecl \<Rightarrow> poly" where
  "polyvecl_pointwise_acc_montgomery poly_pointwise_montgomery poly_add m u v =
     (let w = poly_pointwise_montgomery (u ! 0) (v ! 0)
      in for_upto 1 (L m) (\<lambda>i w.
           let t = poly_pointwise_montgomery (u ! i) (v ! i)
           in poly_add w t) w)"

definition polyvec_matrix_pointwise_montgomery ::
  "(poly \<Rightarrow> poly \<Rightarrow> poly) \<Rightarrow> (poly \<Rightarrow> poly \<Rightarrow> poly) \<Rightarrow> dilithium_mode \<Rightarrow>
   polyveck \<Rightarrow> polyvecl list \<Rightarrow> polyvecl \<Rightarrow> polyveck" where
  "polyvec_matrix_pointwise_montgomery poly_pointwise_montgomery poly_add m t mat v =
     for_upto 0 (K m) (\<lambda>i t.
       t[i := polyvecl_pointwise_acc_montgomery poly_pointwise_montgomery poly_add m (mat ! i) v]) t"

text \<open>\<^verbatim>\<open>poly_uniform_eta(&v->vec[i], seed, nonce++)\<close>: the loop carries the vector and
  the \<^verbatim>\<open>uint16_t\<close> nonce, which wraps at \<open>2 ^ 16\<close>.\<close>

definition polyvecl_uniform_eta ::
  "(u8 list \<Rightarrow> u16 \<Rightarrow> poly) \<Rightarrow> dilithium_mode \<Rightarrow> polyvecl \<Rightarrow> u8 list \<Rightarrow> u16 \<Rightarrow> polyvecl" where
  "polyvecl_uniform_eta poly_uniform_eta m v seed nonce =
     fst (for_upto 0 (L m) (\<lambda>i (v, nonce). (v[i := poly_uniform_eta seed nonce], nonce + 1))
            (v, nonce))"

text \<open>\<^verbatim>\<open>L*nonce + i\<close>: \<^verbatim>\<open>L\<close> is an \<^verbatim>\<open>int\<close> constant and \<^verbatim>\<open>nonce\<close> is promoted to
  \<^verbatim>\<open>int\<close>, where the product is at most \<open>7 * 65535\<close>; adding the \<^verbatim>\<open>unsigned int\<close>
  \<^verbatim>\<open>i\<close> is done in 32 bits, and the call truncates the sum to \<^verbatim>\<open>uint16_t\<close>.\<close>

definition gamma1_nonce :: "dilithium_mode \<Rightarrow> u16 \<Rightarrow> nat \<Rightarrow> u16" where
  "gamma1_nonce m nonce i = ucast (of_nat (L m) * (ucast nonce :: u32) + of_nat i)"

definition polyvecl_uniform_gamma1 ::
  "(u8 list \<Rightarrow> u16 \<Rightarrow> poly) \<Rightarrow> dilithium_mode \<Rightarrow> polyvecl \<Rightarrow> u8 list \<Rightarrow> u16 \<Rightarrow> polyvecl" where
  "polyvecl_uniform_gamma1 poly_uniform_gamma1 m v seed nonce =
     for_upto 0 (L m) (\<lambda>i v. v[i := poly_uniform_gamma1 seed (gamma1_nonce m nonce i)]) v"

definition polyveck_uniform_eta ::
  "(u8 list \<Rightarrow> u16 \<Rightarrow> poly) \<Rightarrow> dilithium_mode \<Rightarrow> polyveck \<Rightarrow> u8 list \<Rightarrow> u16 \<Rightarrow> polyveck" where
  "polyveck_uniform_eta poly_uniform_eta m v seed nonce =
     fst (for_upto 0 (K m) (\<lambda>i (v, nonce). (v[i := poly_uniform_eta seed nonce], nonce + 1))
            (v, nonce))"

text \<open>The norm checks leave their loop at the first polynomial for which
  \<^verbatim>\<open>poly_chknorm\<close> returns nonzero. The model returns the \<^verbatim>\<open>int\<close> result together
  with the calls of \<^verbatim>\<open>poly_chknorm\<close> made, in order, each with the index of the
  polynomial passed.\<close>

datatype call = Call_poly_chknorm nat

function polyvecl_chknorm_from ::
  "(poly \<Rightarrow> int32 \<Rightarrow> int) \<Rightarrow> dilithium_mode \<Rightarrow> polyvecl \<Rightarrow> int32 \<Rightarrow> nat \<Rightarrow> int \<times> call list" where
  "polyvecl_chknorm_from poly_chknorm m v bound i =
     (if i < L m then
        (if poly_chknorm (v ! i) bound \<noteq> 0 then (1, [Call_poly_chknorm i])
         else (let (r, calls) = polyvecl_chknorm_from poly_chknorm m v bound (i + 1)
               in (r, Call_poly_chknorm i # calls)))
      else (0, []))"
  by pat_completeness auto
termination
  by (relation "measure (\<lambda>(poly_chknorm, m, v, bound, i). L m - i)") auto

declare polyvecl_chknorm_from.simps [simp del]

definition polyvecl_chknorm :: "(poly \<Rightarrow> int32 \<Rightarrow> int) \<Rightarrow> dilithium_mode \<Rightarrow> polyvecl \<Rightarrow> int32 \<Rightarrow> int" where
  "polyvecl_chknorm poly_chknorm m v bound = fst (polyvecl_chknorm_from poly_chknorm m v bound 0)"

definition polyvecl_chknorm_calls :: "(poly \<Rightarrow> int32 \<Rightarrow> int) \<Rightarrow> dilithium_mode \<Rightarrow> polyvecl \<Rightarrow> int32 \<Rightarrow> call list" where
  "polyvecl_chknorm_calls poly_chknorm m v bound = snd (polyvecl_chknorm_from poly_chknorm m v bound 0)"

function polyveck_chknorm_from ::
  "(poly \<Rightarrow> int32 \<Rightarrow> int) \<Rightarrow> dilithium_mode \<Rightarrow> polyveck \<Rightarrow> int32 \<Rightarrow> nat \<Rightarrow> int \<times> call list" where
  "polyveck_chknorm_from poly_chknorm m v bound i =
     (if i < K m then
        (if poly_chknorm (v ! i) bound \<noteq> 0 then (1, [Call_poly_chknorm i])
         else (let (r, calls) = polyveck_chknorm_from poly_chknorm m v bound (i + 1)
               in (r, Call_poly_chknorm i # calls)))
      else (0, []))"
  by pat_completeness auto
termination
  by (relation "measure (\<lambda>(poly_chknorm, m, v, bound, i). K m - i)") auto

declare polyveck_chknorm_from.simps [simp del]

definition polyveck_chknorm :: "(poly \<Rightarrow> int32 \<Rightarrow> int) \<Rightarrow> dilithium_mode \<Rightarrow> polyveck \<Rightarrow> int32 \<Rightarrow> int" where
  "polyveck_chknorm poly_chknorm m v bound = fst (polyveck_chknorm_from poly_chknorm m v bound 0)"

definition polyveck_chknorm_calls :: "(poly \<Rightarrow> int32 \<Rightarrow> int) \<Rightarrow> dilithium_mode \<Rightarrow> polyveck \<Rightarrow> int32 \<Rightarrow> call list" where
  "polyveck_chknorm_calls poly_chknorm m v bound = snd (polyveck_chknorm_from poly_chknorm m v bound 0)"

text \<open>\<^verbatim>\<open>s += poly_make_hint(&h->vec[i], &v0->vec[i], &v1->vec[i])\<close>: the loop carries the
  hint vector and the \<^verbatim>\<open>unsigned int\<close> sum.\<close>

definition polyveck_make_hint ::
  "(poly \<Rightarrow> poly \<Rightarrow> poly \<times> u32) \<Rightarrow> dilithium_mode \<Rightarrow> polyveck \<Rightarrow> polyveck \<Rightarrow> polyveck \<Rightarrow> polyveck \<times> u32" where
  "polyveck_make_hint poly_make_hint m h v0 v1 =
     for_upto 0 (K m) (\<lambda>i (h, s).
       let (hi, n) = poly_make_hint (v0 ! i) (v1 ! i)
       in (h[i := hi], s + n)) (h, 0)"

text \<open>Modelled from the spec: poly.c, which holds \<^verbatim>\<open>poly_chknorm\<close>, is not part of the
  sources at hand. The spec (4.4, chknorm) has it return 1 if the absolute value of some
  coefficient is at least the bound, and 0 otherwise. The norm checks of the vectors
  take their \<^verbatim>\<open>poly_chknorm\<close> as an argument; this one serves as a concrete instance.\<close>

definition poly_chknorm_model :: "poly \<Rightarrow> int32 \<Rightarrow> int" where
  "poly_chknorm_model a B = (if list_ex (\<lambda>c. sint B \<le> \<bar>sint c\<bar>) (coeffs a) then 1 else 0)"

section \<open>The Keccak-f[1600] round as the spec words it\<close>

text \<open>The definitions of this section follow the words of the spec (4.1, Permutation),
  not the code: a 5 by 5 matrix of 64-bit lanes, lane \<open>(x, y)\<close> being entry
  \<open>x + 5 * y\<close> of the state, and 24 rounds of \<open>\<theta>\<close>, \<open>\<rho>\<close>, \<open>\<pi>\<close>, \<open>\<chi>\<close> and \<open>\<iota>\<close>. They are
  what \<^const>\<open>KeccakF1600_StatePermute\<close> is compared with.\<close>

definition lane_spec :: "u64 list \<Rightarrow> nat \<Rightarrow> nat \<Rightarrow> u64" where
  "lane_spec A x y = A ! (x + 5 * y)"

definition lanes_spec :: "(nat \<Rightarrow> nat \<Rightarrow> u64) \<Rightarrow> u64 list" where
  "lanes_spec f = map (\<lambda>i. f (i mod 5) (i div 5)) [0..<25]"

text \<open>\<open>\<theta>\<close>: the parity of each column, and each lane XORed with the parity of the column
  to its left and the parity of the column to its right rotated left by 1.\<close>

definition theta_spec :: "u64 list \<Rightarrow> u64 list" where
  "theta_spec A =
     (let C = (\<lambda>x. lane_spec A x 0 XOR lane_spec A x 1 XOR lane_spec A x 2 XOR lane_spec A x 3
                 XOR lane_spec A x 4);
          D = (\<lambda>x. C ((x + 4) mod 5) XOR word_rotl 1 (C ((x + 1) mod 5)))
      in lanes_spec (\<lambda>x y. lane_spec A x y XOR D x))"

text \<open>\<open>\<rho>\<close>: the standard table of rotation offsets, modulo 64, row \<open>y\<close> after row
  \<open>y - 1\<close>. The table is the one the standard generates: lane \<open>(0, 0)\<close> is not rotated,
  and walking from \<open>(1, 0)\<close> by \<open>(x, y) \<rightarrow> (y, 2x + 3y mod 5)\<close> the lane reached after
  \<open>t\<close> steps is rotated by \<open>(t + 1)(t + 2)/2\<close>.\<close>

definition rho_offsets_spec :: "nat list" where
  "rho_offsets_spec =
     [ 0,  1, 62, 28, 27,
      36, 44,  6, 55, 20,
       3, 10, 43, 25, 39,
      41, 45, 15, 21,  8,
      18,  2, 61, 56, 14]"

fun rho_walk_spec :: "nat \<Rightarrow> nat \<times> nat" where
  "rho_walk_spec 0 = (1, 0)"
| "rho_walk_spec (Suc t) = (let (x, y) = rho_walk_spec t in (y, (2 * x + 3 * y) mod 5))"

definition rho_spec :: "u64 list \<Rightarrow> u64 list" where
  "rho_spec A = lanes_spec (\<lambda>x y. word_rotl (rho_offsets_spec ! (x + 5 * y)) (lane_spec A x y))"

text \<open>\<open>\<pi>\<close>: lane \<open>(x, y)\<close> moves to \<open>(y, 2x + 3y mod 5)\<close>.\<close>

definition pi_spec :: "u64 list \<Rightarrow> u64 list" where
  "pi_spec A =
     fold (\<lambda>i B. let x = i mod 5; y = i div 5
                  in B[y + 5 * ((2 * x + 3 * y) mod 5) := lane_spec A x y])
       [0..<25] (replicate 25 0)"

text \<open>\<open>\<chi>\<close>: \<open>a \<leftarrow> a XOR ((NOT b) AND c)\<close> along each row, \<open>b\<close> and \<open>c\<close> being the next
  two lanes of the row.\<close>

definition chi_spec :: "u64 list \<Rightarrow> u64 list" where
  "chi_spec A =
     lanes_spec (\<lambda>x y. lane_spec A x y
        XOR ((NOT (lane_spec A ((x + 1) mod 5) y)) AND lane_spec A ((x + 2) mod 5) y))"

text \<open>\<open>\<iota>\<close>: the round constant XORed into lane \<open>(0, 0)\<close>.\<close>

definition iota_spec :: "nat \<Rightarrow> u64 list \<Rightarrow> u64 list" where
  "iota_spec ir A = A[0 := (A ! 0) XOR (KeccakF_RoundConstants ! ir)]"

definition keccak_round_spec :: "nat \<Rightarrow> u64 list \<Rightarrow> u64 list" where
  "keccak_round_spec ir A = iota_spec ir (chi_spec (pi_spec (rho_spec (theta_spec A))))"

definition keccak_f1600_spec :: "u64 list \<Rightarrow> u64 list" where
  "keccak_f1600_spec A = fold keccak_round_spec [0..<24] A"

section \<open>Loops over an index range\<close>

lemma for_upto_fold: "for_upto i n body st = fold body [i..<n] st"
proof (induction i n body st rule: for_upto.induct)
  case (1 i n body st)
  show ?case
  proof (cases "i < n")
    case True
    then show ?thesis
      using 1 by (subst for_upto.simps) (simp add: upt_rec [of i n])
  next
    case False
    then show ?thesis by (subst for_upto.simps) simp
  qed
qed

lemma fold_upt_Suc: "fold f [0..<Suc n] st = f n (fold f [0..<n] st)"
  by simp

lemma fold_update_each:
  "n \<le> length xs \<Longrightarrow>
   fold (\<lambda>i xs. xs[i := g i (xs ! i)]) [0..<n] xs = map (\<lambda>i. g i (xs ! i)) [0..<n] @ drop n xs"
proof (induction n)
  case 0
  then show ?case by simp
next
  case (Suc n)
  then have n: "n < length xs" by simp
  have "fold (\<lambda>i xs. xs[i := g i (xs ! i)]) [0..<Suc n] xs
      = (map (\<lambda>i. g i (xs ! i)) [0..<n] @ drop n xs)[n := g n ((map (\<lambda>i. g i (xs ! i)) [0..<n] @ drop n xs) ! n)]"
    using Suc by simp
  also have "(map (\<lambda>i. g i (xs ! i)) [0..<n] @ drop n xs) ! n = xs ! n"
    using n by (simp add: nth_append)
  also have "(map (\<lambda>i. g i (xs ! i)) [0..<n] @ drop n xs)[n := g n (xs ! n)]
      = map (\<lambda>i. g i (xs ! i)) [0..<n] @ (drop n xs)[0 := g n (xs ! n)]"
    by (simp add: list_update_append)
  also have "(drop n xs)[0 := g n (xs ! n)] = g n (xs ! n) # drop (Suc n) xs"
    using n by (simp add: Cons_nth_drop_Suc [symmetric])
  finally show ?case by simp
qed

lemma fold_update_const:
  "n \<le> length xs \<Longrightarrow>
   fold (\<lambda>i xs. xs[i := g i]) [0..<n] xs = map g [0..<n] @ drop n xs"
  using fold_update_each [of n xs "\<lambda>i _. g i"] by simp

lemma fold_row_update:
  "i < length mat \<Longrightarrow>
   fold (\<lambda>j mat. mat[i := (mat ! i)[j := g j]]) js mat = mat[i := fold (\<lambda>j row. row[j := g j]) js (mat ! i)]"
  by (induction js arbitrary: mat) simp_all


lemma matrix_nonce_or:
  assumes "j < 256"
  shows "matrix_nonce i j = ucast (push_bit 8 (of_nat i :: u32) OR of_nat j)"
proof -
  have nbit: "\<not> bit j n" if "8 \<le> n" for n
  proof -
    have "(2::nat) ^ 8 \<le> 2 ^ n" using that by (intro power_increasing) simp_all
    then have "j < 2 ^ n" using assms by simp
    then show ?thesis by (simp add: bit_iff_odd)
  qed
  have "push_bit 8 (of_nat i :: u32) AND of_nat j = 0"
    by (rule bit_word_eqI) (auto simp: bit_simps nbit)
  then have "push_bit 8 (of_nat i :: u32) + of_nat j = push_bit 8 (of_nat i) OR of_nat j"
    by (rule disjunctive_add_eq_or)
  then show ?thesis by (simp only: matrix_nonce_def)
qed

lemma matrix_nonce_unat:
  assumes "i < 256" "j < 256"
  shows "unat (matrix_nonce i j) = i * 256 + j"
proof -
  have e: "push_bit 8 (of_nat i :: u32) + of_nat j = of_nat (i * 256 + j)"
    by (simp add: push_bit_eq_mult)
  have "unat (matrix_nonce i j) = take_bit 16 (take_bit 32 (i * 256 + j))"
    unfolding matrix_nonce_def e by (simp only: unsigned_ucast_eq unsigned_of_nat of_nat_id id_apply len_of_numeral_defs) simp
  moreover have "i * 256 + j < 2 ^ 16" using assms by simp
  ultimately show ?thesis by (simp add: take_bit_nat_eq_self)
qed

lemma polyvec_matrix_expand_eq:
  assumes "length mat = K m" and "\<forall>row \<in> set mat. length row = L m"
  shows "polyvec_matrix_expand pu m mat rho =
         map (\<lambda>i. map (\<lambda>j. pu rho (matrix_nonce i j)) [0..<L m]) [0..<K m]"
proof -
  let ?row = "\<lambda>i. map (\<lambda>j. pu rho (matrix_nonce i j)) [0..<L m]"
  have inner: "fold (\<lambda>j mat. mat[i := (mat ! i)[j := pu rho (matrix_nonce i j)]]) [0..<L m] mat'
      = mat'[i := ?row i]"
    if "i < length mat'" "length (mat' ! i) = L m" for i mat'
    using that by (simp add: fold_row_update fold_update_const)
  have outer: "fold (\<lambda>i mat. fold (\<lambda>j mat. mat[i := (mat ! i)[j := pu rho (matrix_nonce i j)]]) [0..<L m] mat) [0..<n] mat
      = map ?row [0..<n] @ drop n mat" if "n \<le> K m" for n
    using that
  proof (induction n)
    case 0
    then show ?case by simp
  next
    case (Suc n)
    let ?mat' = "map ?row [0..<n] @ drop n mat"
    from Suc.prems have n: "n < length mat" using assms(1) by simp
    then have len: "n < length ?mat'" by simp
    have "?mat' ! n = mat ! n" using n by (simp add: nth_append)
    then have "length (?mat' ! n) = L m" using assms(2) n by simp
    from inner [OF len this] Suc
    have "fold (\<lambda>i mat. fold (\<lambda>j mat. mat[i := (mat ! i)[j := pu rho (matrix_nonce i j)]]) [0..<L m] mat) [0..<Suc n] mat
        = ?mat'[n := ?row n]" by simp
    also have "\<dots> = map ?row [0..<n] @ (drop n mat)[0 := ?row n]"
      by (simp add: list_update_append)
    also have "(drop n mat)[0 := ?row n] = ?row n # drop (Suc n) mat"
      using n by (simp add: Cons_nth_drop_Suc [symmetric])
    finally show ?case by simp
  qed
  show ?thesis
    unfolding polyvec_matrix_expand_def for_upto_fold
    using outer [of "K m"] assms(1) by simp
qed

lemma fold_acc_foldl:
  "fold (\<lambda>i w. f w (g i)) is w = foldl f w (map g is)"
  by (induction "is" arbitrary: w) simp_all

lemma polyvecl_pointwise_acc_montgomery_eq:
  "polyvecl_pointwise_acc_montgomery pm padd m u v =
     foldl padd (pm (u ! 0) (v ! 0)) (map (\<lambda>j. pm (u ! j) (v ! j)) [1..<L m])"
  using fold_acc_foldl [of padd "\<lambda>j. pm (u ! j) (v ! j)" "[1..<L m]"]
  by (simp add: polyvecl_pointwise_acc_montgomery_def for_upto_fold Let_def)

lemma fold_eta:
  "n \<le> length v \<Longrightarrow>
   fold (\<lambda>i (v, nonce). (v[i := pe seed nonce], nonce + 1)) [0..<n] (v, nonce :: u16)
     = (map (\<lambda>i. pe seed (nonce + of_nat i)) [0..<n] @ drop n v, nonce + of_nat n)"
proof (induction n)
  case 0
  then show ?case by simp
next
  case (Suc n)
  then have n: "n < length v" by simp
  have "(drop n v)[0 := x] = x # drop (Suc n) v" for x
    using n by (simp add: Cons_nth_drop_Suc [symmetric])
  then show ?case
    using Suc by (simp add: list_update_append add.assoc)
qed

lemma ucast_of_nat_down: "(ucast (of_nat n :: u32) :: u16) = of_nat n"
  by (simp add: word_unat_eq_iff unsigned_ucast_eq unsigned_of_nat)

lemma gamma1_nonce_eq: "gamma1_nonce m nonce i = of_nat (L m) * nonce + of_nat i"
proof -
  have "(ucast nonce :: u32) = of_nat (unat nonce)" by simp
  then have "of_nat (L m) * (ucast nonce :: u32) + of_nat i = of_nat (L m * unat nonce + i)"
    by (simp only: of_nat_add of_nat_mult)
  then have "gamma1_nonce m nonce i = of_nat (L m * unat nonce + i)"
    by (simp only: gamma1_nonce_def ucast_of_nat_down)
  then show ?thesis by simp
qed

lemma fold_hint:
  "n \<le> length h \<Longrightarrow>
   fold (\<lambda>i (h, c). case pmh (v0 ! i) (v1 ! i) of (hi, k) \<Rightarrow> (h[i := hi], c + k)) [0..<n] (h, c0 :: u32)
     = (map (\<lambda>i. fst (pmh (v0 ! i) (v1 ! i))) [0..<n] @ drop n h,
        c0 + sum_list (map (\<lambda>i. snd (pmh (v0 ! i) (v1 ! i))) [0..<n]))"
proof (induction n)
  case 0
  then show ?case by simp
next
  case (Suc n)
  then have n: "n < length h" by simp
  have "(drop n h)[0 := x] = x # drop (Suc n) h" for x
    using n by (simp add: Cons_nth_drop_Suc [symmetric])
  then show ?case
    using Suc by (simp add: list_update_append add.assoc split_beta Let_def)
qed

lemma unat_sum_list:
  "sum_list (map unat ws) < 2 ^ 32 \<Longrightarrow> unat (sum_list ws :: u32) = sum_list (map unat ws)"
proof (induction ws)
  case Nil
  then show ?case by simp
next
  case (Cons w ws)
  then have "unat (sum_list ws) = sum_list (map unat ws)" by simp
  then have "unat (w + sum_list ws) = (unat w + sum_list (map unat ws)) mod 2 ^ 32"
    by (simp add: unat_word_ariths)
  then show ?case using Cons.prems by simp
qed

lemma sum_list_upt_bound:
  "(\<And>i. i < n \<Longrightarrow> f i \<le> (b::nat)) \<Longrightarrow> sum_list (map f [0..<n]) \<le> n * b"
proof (induction n)
  case 0
  then show ?case by simp
next
  case (Suc n)
  then have "sum_list (map f [0..<n]) \<le> n * b" and "f n \<le> b" by simp_all
  then show ?case by simp
qed

lemma K_le: "K m \<le> 8"
  by (cases m) simp_all

lemma L_le: "L m \<le> 7"
  by (cases m) simp_all

lemma polyveck_make_hint_eq:
  assumes "length h = K m"
  shows "polyveck_make_hint pmh m h v0 v1 =
     (map (\<lambda>i. fst (pmh (v0 ! i) (v1 ! i))) [0..<K m],
      sum_list (map (\<lambda>i. snd (pmh (v0 ! i) (v1 ! i))) [0..<K m]))"
  using assms by (simp add: polyveck_make_hint_def for_upto_fold fold_hint)

lemma polyvecl_chknorm_from_eq:
  "polyvecl_chknorm_from pc m v B i =
     (if \<exists>j. i \<le> j \<and> j < L m \<and> pc (v ! j) B \<noteq> 0 then 1 else 0,
      map Call_poly_chknorm
        (take (Suc (length (takeWhile (\<lambda>j. pc (v ! j) B = 0) [i..<L m]))) [i..<L m]))"
proof (induction pc m v B i rule: polyvecl_chknorm_from.induct)
  case (1 pc m v B i)
  show ?case
  proof (cases "i < L m")
    case False
    then show ?thesis
      by (subst polyvecl_chknorm_from.simps) simp
  next
    case True
    then have upt: "[i..<L m] = i # [Suc i..<L m]" by (simp add: upt_rec)
    show ?thesis
    proof (cases "pc (v ! i) B = 0")
      case False
      with True show ?thesis
        by (subst polyvecl_chknorm_from.simps) (auto simp: upt)
    next
      case z: True
      have "(\<exists>j. i \<le> j \<and> j < L m \<and> pc (v ! j) B \<noteq> 0)
          = (\<exists>j. Suc i \<le> j \<and> j < L m \<and> pc (v ! j) B \<noteq> 0)"
        using z by (metis Suc_leI le_neq_implies_less Suc_leD)
      with True z 1 show ?thesis
        by (subst polyvecl_chknorm_from.simps) (simp add: upt)
    qed
  qed
qed

lemma polyveck_chknorm_from_eq:
  "polyveck_chknorm_from pc m v B i =
     (if \<exists>j. i \<le> j \<and> j < K m \<and> pc (v ! j) B \<noteq> 0 then 1 else 0,
      map Call_poly_chknorm
        (take (Suc (length (takeWhile (\<lambda>j. pc (v ! j) B = 0) [i..<K m]))) [i..<K m]))"
proof (induction pc m v B i rule: polyveck_chknorm_from.induct)
  case (1 pc m v B i)
  show ?case
  proof (cases "i < K m")
    case False
    then show ?thesis
      by (subst polyveck_chknorm_from.simps) simp
  next
    case True
    then have upt: "[i..<K m] = i # [Suc i..<K m]" by (simp add: upt_rec)
    show ?thesis
    proof (cases "pc (v ! i) B = 0")
      case False
      with True show ?thesis
        by (subst polyveck_chknorm_from.simps) (auto simp: upt)
    next
      case z: True
      have "(\<exists>j. i \<le> j \<and> j < K m \<and> pc (v ! j) B \<noteq> 0)
          = (\<exists>j. Suc i \<le> j \<and> j < K m \<and> pc (v ! j) B \<noteq> 0)"
        using z by (metis Suc_leI le_neq_implies_less Suc_leD)
      with True z 1 show ?thesis
        by (subst polyveck_chknorm_from.simps) (simp add: upt)
    qed
  qed
qed

lemma takeWhile_upt_cong:
  assumes "\<And>j. i \<le> j \<Longrightarrow> j < n \<Longrightarrow> ok j = ok' j"
  shows "takeWhile ok [i..<n] = takeWhile ok' [i..<n]"
  by (rule takeWhile_cong) (simp_all add: assms)

lemma less_4_iff: "(i::nat) < 4 \<longleftrightarrow> i = 0 \<or> i = 1 \<or> i = 2 \<or> i = 3"
  by auto

section \<open>Matrix expansion\<close>

text \<open>C5: for every seed \<open>rho\<close>, \<^verbatim>\<open>polyvec_matrix_expand\<close> fills the matrix so that the
  entry in row \<open>i < K\<close> and column \<open>j < L\<close> is \<^verbatim>\<open>poly_uniform(rho, nonce)\<close> for the
  16-bit nonce that the code computes as \<^verbatim>\<open>(i << 8) + j\<close>. That nonce equals the bitwise
  OR \<^verbatim>\<open>(i << 8) | j\<close> and its value is 256 times \<open>i\<close> plus \<open>j\<close>.\<close>

theorem polyvec_matrix_expand_entry:
  assumes "length mat = K m" and "\<forall>row \<in> set mat. length row = L m"
    and "i < K m" and "j < L m"
  shows "polyvec_matrix_expand poly_uniform m mat rho ! i ! j = poly_uniform rho (matrix_nonce i j)
       \<and> matrix_nonce i j = ucast (push_bit 8 (of_nat i :: u32) OR of_nat j)
       \<and> unat (matrix_nonce i j) = i * 256 + j"
proof -
  have "K m \<le> 8" "L m \<le> 7" by (cases m; simp)+
  then have "i < 256" "j < 256" using assms(3,4) by simp_all
  then have "matrix_nonce i j = ucast (push_bit 8 (of_nat i :: u32) OR of_nat j)"
    "unat (matrix_nonce i j) = i * 256 + j"
    using matrix_nonce_or [of j i] matrix_nonce_unat [of i j] by blast+
  moreover have "polyvec_matrix_expand poly_uniform m mat rho ! i ! j = poly_uniform rho (matrix_nonce i j)"
    using assms by (simp add: polyvec_matrix_expand_eq)
  ultimately show ?thesis by (intro conjI)
qed

theorem polyvec_matrix_expand_entry_witness:
  "length (replicate 4 (replicate 4 \<lparr>coeffs = []\<rparr>)) = K MODE2
   \<and> list_all (\<lambda>row. length row = L MODE2) (replicate 4 (replicate 4 \<lparr>coeffs = []\<rparr>))
   \<and> (3::nat) < K MODE2 \<and> (2::nat) < L MODE2
   \<and> polyvec_matrix_expand (\<lambda>rho nonce. \<lparr>coeffs = [ucast nonce]\<rparr>) MODE2
        (replicate 4 (replicate 4 \<lparr>coeffs = []\<rparr>)) [] ! 3 ! 2 = \<lparr>coeffs = [770]\<rparr>"
proof -
  have a: "length (replicate 4 (replicate 4 \<lparr>coeffs = []\<rparr>)) = K MODE2" by simp
  have b: "\<forall>row \<in> set (replicate 4 (replicate 4 \<lparr>coeffs = []\<rparr>)). length row = L MODE2" by simp
  have c: "(3::nat) < K MODE2" by simp
  have d: "(2::nat) < L MODE2" by simp
  have e: "matrix_nonce 3 2 = 770" by (simp add: matrix_nonce_def)
  show ?thesis
    using polyvec_matrix_expand_entry [OF a b c d, of "\<lambda>rho nonce. \<lparr>coeffs = [ucast nonce]\<rparr>" "[]"] a b e
    by (simp add: list_all_iff)
qed

section \<open>Matrix-vector product\<close>

text \<open>C6: for every matrix and vector, \<^verbatim>\<open>polyvec_matrix_pointwise_montgomery\<close> sets the
  output component \<open>i < K\<close> to the dot product of row \<open>i\<close> with \<open>v\<close>: the product
  \<^verbatim>\<open>poly_pointwise_montgomery(A[i][0], v[0])\<close> is assigned first, and the products for
  \<open>j = 1, ..., L - 1\<close> are added to it with \<^verbatim>\<open>poly_add\<close> in index order.\<close>

theorem polyvec_matrix_pointwise_montgomery_entry:
  assumes "length t = K m" and "i < K m"
  shows "polyvec_matrix_pointwise_montgomery poly_pointwise_montgomery poly_add m t mat v ! i =
     foldl poly_add (poly_pointwise_montgomery (mat ! i ! 0) (v ! 0))
       (map (\<lambda>j. poly_pointwise_montgomery (mat ! i ! j) (v ! j)) [1..<L m])"
  using assms
  by (simp add: polyvec_matrix_pointwise_montgomery_def for_upto_fold fold_update_const
      polyvecl_pointwise_acc_montgomery_eq)

theorem polyvec_matrix_pointwise_montgomery_entry_witness:
  "length (replicate 4 \<lparr>coeffs = [0, 0]\<rparr>) = K MODE2 \<and> (1::nat) < K MODE2
   \<and> polyvec_matrix_pointwise_montgomery
        (\<lambda>a b. \<lparr>coeffs = map2 (*) (coeffs a) (coeffs b)\<rparr>)
        (\<lambda>a b. \<lparr>coeffs = map2 (+) (coeffs a) (coeffs b)\<rparr>)
        MODE2 (replicate 4 \<lparr>coeffs = [0, 0]\<rparr>)
        (replicate 4 [\<lparr>coeffs = [1, 2]\<rparr>, \<lparr>coeffs = [3, 4]\<rparr>, \<lparr>coeffs = [5, 6]\<rparr>, \<lparr>coeffs = [7, 8]\<rparr>])
        [\<lparr>coeffs = [1, 1]\<rparr>, \<lparr>coeffs = [2, 2]\<rparr>, \<lparr>coeffs = [3, 3]\<rparr>, \<lparr>coeffs = [4, 4]\<rparr>] ! 1
      = \<lparr>coeffs = [50, 60]\<rparr>"
proof -
  have a: "length (replicate 4 \<lparr>coeffs = [0, 0]\<rparr>) = K MODE2" by simp
  have b: "(1::nat) < K MODE2" by simp
  have c: "[Suc 0..<4] = [1, 2, 3]" by (simp add: upt_rec)
  show ?thesis
    using polyvec_matrix_pointwise_montgomery_entry [OF a b,
        of "\<lambda>a b. \<lparr>coeffs = map2 (*) (coeffs a) (coeffs b)\<rparr>"
           "\<lambda>a b. \<lparr>coeffs = map2 (+) (coeffs a) (coeffs b)\<rparr>"
           "replicate 4 [\<lparr>coeffs = [1, 2]\<rparr>, \<lparr>coeffs = [3, 4]\<rparr>, \<lparr>coeffs = [5, 6]\<rparr>, \<lparr>coeffs = [7, 8]\<rparr>]"
           "[\<lparr>coeffs = [1, 1]\<rparr>, \<lparr>coeffs = [2, 2]\<rparr>, \<lparr>coeffs = [3, 3]\<rparr>, \<lparr>coeffs = [4, 4]\<rparr>]"]
      a b
    by (simp add: c)
qed

section \<open>Norm checks\<close>

text \<open>C7: for every vector and bound, \<^verbatim>\<open>polyveck_chknorm\<close> and \<^verbatim>\<open>polyvecl_chknorm\<close>
  return 0 or 1, and return 1 exactly when \<^verbatim>\<open>poly_chknorm\<close> returns nonzero for at
  least one component. If \<^verbatim>\<open>poly_chknorm\<close> keeps its contract (nonzero exactly when
  some coefficient has absolute value at least the bound), they return 1 exactly when
  some coefficient of the vector has absolute value at least the bound, and 0
  otherwise.\<close>

theorem chknorm_result:
  "polyveck_chknorm poly_chknorm m v B \<in> {0, 1}
   \<and> (polyveck_chknorm poly_chknorm m v B = 1 \<longleftrightarrow> (\<exists>i < K m. poly_chknorm (v ! i) B \<noteq> 0))
   \<and> polyvecl_chknorm poly_chknorm m w B \<in> {0, 1}
   \<and> (polyvecl_chknorm poly_chknorm m w B = 1 \<longleftrightarrow> (\<exists>i < L m. poly_chknorm (w ! i) B \<noteq> 0))
   \<and> ((\<forall>p. poly_chknorm p B \<noteq> 0 \<longleftrightarrow> (\<exists>c \<in> set (coeffs p). sint B \<le> \<bar>sint c\<bar>)) \<longrightarrow>
        (polyveck_chknorm poly_chknorm m v B = 1
           \<longleftrightarrow> (\<exists>i < K m. \<exists>c \<in> set (coeffs (v ! i)). sint B \<le> \<bar>sint c\<bar>))
      \<and> (polyveck_chknorm poly_chknorm m v B = 0
           \<longleftrightarrow> \<not> (\<exists>i < K m. \<exists>c \<in> set (coeffs (v ! i)). sint B \<le> \<bar>sint c\<bar>))
      \<and> (polyvecl_chknorm poly_chknorm m w B = 1
           \<longleftrightarrow> (\<exists>i < L m. \<exists>c \<in> set (coeffs (w ! i)). sint B \<le> \<bar>sint c\<bar>))
      \<and> (polyvecl_chknorm poly_chknorm m w B = 0
           \<longleftrightarrow> \<not> (\<exists>i < L m. \<exists>c \<in> set (coeffs (w ! i)). sint B \<le> \<bar>sint c\<bar>)))"
  by (simp add: polyveck_chknorm_def polyvecl_chknorm_def polyveck_chknorm_from_eq
      polyvecl_chknorm_from_eq)

theorem chknorm_result_witness:
  "polyveck_chknorm poly_chknorm_model MODE2
     [\<lparr>coeffs = replicate 256 0\<rparr>, \<lparr>coeffs = replicate 256 0\<rparr>,
      \<lparr>coeffs = 7 # replicate 255 0\<rparr>, \<lparr>coeffs = replicate 256 0\<rparr>] 5 = 1
   \<and> polyvecl_chknorm poly_chknorm_model MODE2
     [\<lparr>coeffs = replicate 256 1\<rparr>, \<lparr>coeffs = replicate 256 2\<rparr>,
      \<lparr>coeffs = replicate 256 3\<rparr>, \<lparr>coeffs = replicate 256 4\<rparr>] 5 = 0"
proof -
  let ?v = "[\<lparr>coeffs = replicate 256 0\<rparr>, \<lparr>coeffs = replicate 256 0\<rparr>,
      \<lparr>coeffs = 7 # replicate 255 0\<rparr>, \<lparr>coeffs = replicate 256 (0::int32)\<rparr>]"
  let ?w = "[\<lparr>coeffs = replicate 256 1\<rparr>, \<lparr>coeffs = replicate 256 2\<rparr>,
      \<lparr>coeffs = replicate 256 3\<rparr>, \<lparr>coeffs = replicate 256 (4::int32)\<rparr>]"
  have contract: "\<forall>p. poly_chknorm_model p 5 \<noteq> 0 \<longleftrightarrow> (\<exists>c \<in> set (coeffs p). sint (5::int32) \<le> \<bar>sint c\<bar>)"
    by (simp add: poly_chknorm_model_def list_ex_iff)
  have "(2::nat) < K MODE2 \<and> (\<exists>c \<in> set (coeffs (?v ! 2)). sint (5::int32) \<le> \<bar>sint c\<bar>)"
    by simp
  then have v: "\<exists>i < K MODE2. \<exists>c \<in> set (coeffs (?v ! i)). sint (5::int32) \<le> \<bar>sint c\<bar>"
    by (rule exI [of _ 2])
  have "\<forall>c \<in> set (coeffs (?w ! i)). \<not> sint (5::int32) \<le> \<bar>sint c\<bar>" if "i < L MODE2" for i
  proof -
    from that have "i = 0 \<or> i = 1 \<or> i = 2 \<or> i = 3" by (simp add: less_4_iff)
    then show ?thesis by (elim disjE) simp_all
  qed
  then have w: "\<not> (\<exists>i < L MODE2. \<exists>c \<in> set (coeffs (?w ! i)). sint (5::int32) \<le> \<bar>sint c\<bar>)"
    by blast
  show ?thesis
    using chknorm_result [of poly_chknorm_model MODE2 ?v 5 ?w] contract v w by blast
qed

text \<open>C8, as amended: the norm checks call \<^verbatim>\<open>poly_chknorm\<close> on the components in
  index order and leave the loop after the first component for which it returns
  nonzero. Two vectors for which \<^verbatim>\<open>poly_chknorm\<close> returns nonzero on the same
  components (in particular two vectors that both pass the check) make the same
  sequence of calls; the number of calls gives away the index of the first component
  that fails the check.\<close>

theorem chknorm_calls:
  "polyvecl_chknorm_calls poly_chknorm m v B
     = map Call_poly_chknorm
         (take (Suc (length (takeWhile (\<lambda>i. poly_chknorm (v ! i) B = 0) [0..<L m]))) [0..<L m])
   \<and> polyveck_chknorm_calls poly_chknorm m w B
     = map Call_poly_chknorm
         (take (Suc (length (takeWhile (\<lambda>i. poly_chknorm (w ! i) B = 0) [0..<K m]))) [0..<K m])
   \<and> ((\<forall>i < L m. (poly_chknorm (v ! i) B = 0) = (poly_chknorm (v' ! i) B = 0)) \<longrightarrow>
      polyvecl_chknorm_calls poly_chknorm m v B = polyvecl_chknorm_calls poly_chknorm m v' B)
   \<and> ((\<forall>i < K m. (poly_chknorm (w ! i) B = 0) = (poly_chknorm (w' ! i) B = 0)) \<longrightarrow>
      polyveck_chknorm_calls poly_chknorm m w B = polyveck_chknorm_calls poly_chknorm m w' B)"
proof (intro conjI impI)
  show "polyvecl_chknorm_calls poly_chknorm m v B
     = map Call_poly_chknorm
         (take (Suc (length (takeWhile (\<lambda>i. poly_chknorm (v ! i) B = 0) [0..<L m]))) [0..<L m])"
    by (simp add: polyvecl_chknorm_calls_def polyvecl_chknorm_from_eq)
  show "polyveck_chknorm_calls poly_chknorm m w B
     = map Call_poly_chknorm
         (take (Suc (length (takeWhile (\<lambda>i. poly_chknorm (w ! i) B = 0) [0..<K m]))) [0..<K m])"
    by (simp add: polyveck_chknorm_calls_def polyveck_chknorm_from_eq)
next
  assume "\<forall>i < L m. (poly_chknorm (v ! i) B = 0) = (poly_chknorm (v' ! i) B = 0)"
  then have "takeWhile (\<lambda>i. poly_chknorm (v ! i) B = 0) [0..<L m]
      = takeWhile (\<lambda>i. poly_chknorm (v' ! i) B = 0) [0..<L m]"
    by (intro takeWhile_upt_cong) simp
  then show "polyvecl_chknorm_calls poly_chknorm m v B = polyvecl_chknorm_calls poly_chknorm m v' B"
    by (simp add: polyvecl_chknorm_calls_def polyvecl_chknorm_from_eq)
next
  assume "\<forall>i < K m. (poly_chknorm (w ! i) B = 0) = (poly_chknorm (w' ! i) B = 0)"
  then have "takeWhile (\<lambda>i. poly_chknorm (w ! i) B = 0) [0..<K m]
      = takeWhile (\<lambda>i. poly_chknorm (w' ! i) B = 0) [0..<K m]"
    by (intro takeWhile_upt_cong) simp
  then show "polyveck_chknorm_calls poly_chknorm m w B = polyveck_chknorm_calls poly_chknorm m w' B"
    by (simp add: polyveck_chknorm_calls_def polyveck_chknorm_from_eq)
qed

theorem chknorm_calls_witness:
  "polyvecl_chknorm_calls poly_chknorm_model MODE2
     [\<lparr>coeffs = replicate 256 1\<rparr>, \<lparr>coeffs = replicate 256 2\<rparr>,
      \<lparr>coeffs = replicate 256 3\<rparr>, \<lparr>coeffs = replicate 256 4\<rparr>] 5
   = polyvecl_chknorm_calls poly_chknorm_model MODE2
     [\<lparr>coeffs = replicate 256 0\<rparr>, \<lparr>coeffs = replicate 256 0\<rparr>,
      \<lparr>coeffs = replicate 256 0\<rparr>, \<lparr>coeffs = replicate 256 0\<rparr>] 5
   \<and> polyveck_chknorm_calls poly_chknorm_model MODE2
     [\<lparr>coeffs = replicate 256 1\<rparr>, \<lparr>coeffs = replicate 256 2\<rparr>,
      \<lparr>coeffs = replicate 256 3\<rparr>, \<lparr>coeffs = replicate 256 4\<rparr>] 5
   = polyveck_chknorm_calls poly_chknorm_model MODE2
     [\<lparr>coeffs = replicate 256 0\<rparr>, \<lparr>coeffs = replicate 256 0\<rparr>,
      \<lparr>coeffs = replicate 256 0\<rparr>, \<lparr>coeffs = replicate 256 0\<rparr>] 5"
proof -
  let ?v = "[\<lparr>coeffs = replicate 256 1\<rparr>, \<lparr>coeffs = replicate 256 2\<rparr>,
      \<lparr>coeffs = replicate 256 3\<rparr>, \<lparr>coeffs = replicate 256 (4::int32)\<rparr>]"
  let ?v' = "[\<lparr>coeffs = replicate 256 0\<rparr>, \<lparr>coeffs = replicate 256 0\<rparr>,
      \<lparr>coeffs = replicate 256 0\<rparr>, \<lparr>coeffs = replicate 256 (0::int32)\<rparr>]"
  have e: "(poly_chknorm_model (?v ! i) 5 = 0) = (poly_chknorm_model (?v' ! i) 5 = 0)" if "i < 4" for i
  proof -
    from that have "i = 0 \<or> i = 1 \<or> i = 2 \<or> i = 3" by (simp add: less_4_iff)
    then show ?thesis by (elim disjE) (simp_all add: poly_chknorm_model_def list_ex_iff)
  qed
  have l: "\<forall>i < L MODE2. (poly_chknorm_model (?v ! i) 5 = 0) = (poly_chknorm_model (?v' ! i) 5 = 0)"
    using e by simp
  have k: "\<forall>i < K MODE2. (poly_chknorm_model (?v ! i) 5 = 0) = (poly_chknorm_model (?v' ! i) 5 = 0)"
    using e by simp
  show ?thesis
    using chknorm_calls [of poly_chknorm_model MODE2 ?v 5 ?v ?v' ?v'] l k by blast
qed

text \<open>C8 as stated fails: with the first polynomial over the bound the check makes one
  call of \<^verbatim>\<open>poly_chknorm\<close> and returns; with no polynomial over the bound it makes
  \<open>L\<close> calls.\<close>

theorem chknorm_calls_counterexample:
  "polyvecl_chknorm_calls poly_chknorm_model MODE2
     [\<lparr>coeffs = 7 # replicate 255 0\<rparr>, \<lparr>coeffs = replicate 256 0\<rparr>,
      \<lparr>coeffs = replicate 256 0\<rparr>, \<lparr>coeffs = replicate 256 0\<rparr>] 5
     = [Call_poly_chknorm 0]
   \<and> polyvecl_chknorm_calls poly_chknorm_model MODE2
     [\<lparr>coeffs = replicate 256 0\<rparr>, \<lparr>coeffs = replicate 256 0\<rparr>,
      \<lparr>coeffs = replicate 256 0\<rparr>, \<lparr>coeffs = replicate 256 0\<rparr>] 5
     = [Call_poly_chknorm 0, Call_poly_chknorm 1, Call_poly_chknorm 2, Call_poly_chknorm 3]
   \<and> polyvecl_chknorm_calls poly_chknorm_model MODE2
     [\<lparr>coeffs = 7 # replicate 255 0\<rparr>, \<lparr>coeffs = replicate 256 0\<rparr>,
      \<lparr>coeffs = replicate 256 0\<rparr>, \<lparr>coeffs = replicate 256 0\<rparr>] 5
     \<noteq> polyvecl_chknorm_calls poly_chknorm_model MODE2
     [\<lparr>coeffs = replicate 256 0\<rparr>, \<lparr>coeffs = replicate 256 0\<rparr>,
      \<lparr>coeffs = replicate 256 0\<rparr>, \<lparr>coeffs = replicate 256 0\<rparr>] 5"
  by (simp add: polyvecl_chknorm_calls_def polyvecl_chknorm_from.simps poly_chknorm_model_def
      list_ex_iff)

section \<open>Hints\<close>

text \<open>C9: for every pair of vectors, \<^verbatim>\<open>polyveck_make_hint\<close> writes
  \<^verbatim>\<open>poly_make_hint(v0.vec[i], v1.vec[i])\<close> to component \<open>i < K\<close> of the hint vector and
  returns the sum, in \<^verbatim>\<open>unsigned int\<close>, of the values that \<^verbatim>\<open>poly_make_hint\<close>
  returned. When every call returns the number of coefficients 1 of the polynomial of
  \<open>N\<close> coefficients it wrote, the value returned is the number of coefficients 1 of the
  whole hint vector.\<close>

theorem polyveck_make_hint_sum:
  assumes "length h = K m"
  shows "(\<forall>i < K m. fst (polyveck_make_hint poly_make_hint m h v0 v1) ! i
            = fst (poly_make_hint (v0 ! i) (v1 ! i)))
       \<and> snd (polyveck_make_hint poly_make_hint m h v0 v1)
            = sum_list (map (\<lambda>i. snd (poly_make_hint (v0 ! i) (v1 ! i))) [0..<K m])
       \<and> ((\<forall>i < K m. length (coeffs (fst (poly_make_hint (v0 ! i) (v1 ! i)))) = N
              \<and> unat (snd (poly_make_hint (v0 ! i) (v1 ! i)))
                  = length (filter (\<lambda>c. c = 1) (coeffs (fst (poly_make_hint (v0 ! i) (v1 ! i)))))) \<longrightarrow>
            unat (snd (polyveck_make_hint poly_make_hint m h v0 v1))
              = (\<Sum>i < K m. length (filter (\<lambda>c. c = 1)
                   (coeffs (fst (polyveck_make_hint poly_make_hint m h v0 v1) ! i)))))"
proof (intro conjI impI)
  note eq = polyveck_make_hint_eq [OF assms, of poly_make_hint v0 v1]
  show "\<forall>i < K m. fst (polyveck_make_hint poly_make_hint m h v0 v1) ! i
            = fst (poly_make_hint (v0 ! i) (v1 ! i))"
    by (simp add: eq)
  show "snd (polyveck_make_hint poly_make_hint m h v0 v1)
            = sum_list (map (\<lambda>i. snd (poly_make_hint (v0 ! i) (v1 ! i))) [0..<K m])"
    by (simp add: eq)
  assume a: "\<forall>i < K m. length (coeffs (fst (poly_make_hint (v0 ! i) (v1 ! i)))) = N
              \<and> unat (snd (poly_make_hint (v0 ! i) (v1 ! i)))
                  = length (filter (\<lambda>c. c = 1) (coeffs (fst (poly_make_hint (v0 ! i) (v1 ! i)))))"
  let ?c = "\<lambda>i. unat (snd (poly_make_hint (v0 ! i) (v1 ! i)))"
  have "?c i \<le> 256" if "i < K m" for i
  proof -
    have "?c i = length (filter (\<lambda>c. c = 1) (coeffs (fst (poly_make_hint (v0 ! i) (v1 ! i)))))"
      and len: "length (coeffs (fst (poly_make_hint (v0 ! i) (v1 ! i)))) = N"
      using a that by simp_all
    then show ?thesis
      using length_filter_le [of "\<lambda>c. c = 1" "coeffs (fst (poly_make_hint (v0 ! i) (v1 ! i)))"]
      by (simp add: N_def)
  qed
  then have "sum_list (map ?c [0..<K m]) \<le> K m * 256"
    by (rule sum_list_upt_bound)
  also have "\<dots> \<le> 8 * 256" using K_le [of m] by simp
  finally have small: "sum_list (map ?c [0..<K m]) < 2 ^ 32" by simp
  have "unat (snd (polyveck_make_hint poly_make_hint m h v0 v1)) = sum_list (map ?c [0..<K m])"
    using unat_sum_list [of "map (\<lambda>i. snd (poly_make_hint (v0 ! i) (v1 ! i))) [0..<K m]"] small
    by (simp add: eq comp_def)
  also have "\<dots> = (\<Sum>i < K m. ?c i)"
    by (simp add: interv_sum_list_conv_sum_set_nat atLeast0LessThan)
  also have "\<dots> = (\<Sum>i < K m. length (filter (\<lambda>c. c = 1)
                   (coeffs (fst (polyveck_make_hint poly_make_hint m h v0 v1) ! i))))"
    using a by (intro sum.cong) (simp_all add: eq)
  finally show "unat (snd (polyveck_make_hint poly_make_hint m h v0 v1))
              = (\<Sum>i < K m. length (filter (\<lambda>c. c = 1)
                   (coeffs (fst (polyveck_make_hint poly_make_hint m h v0 v1) ! i))))" .
qed

theorem polyveck_make_hint_sum_witness:
  "length (replicate 4 \<lparr>coeffs = replicate 256 0\<rparr>) = K MODE2
   \<and> snd (polyveck_make_hint (\<lambda>a0 a1. (\<lparr>coeffs = 1 # replicate 255 0\<rparr>, 1)) MODE2
        (replicate 4 \<lparr>coeffs = replicate 256 0\<rparr>) [] []) = 4
   \<and> unat (snd (polyveck_make_hint (\<lambda>a0 a1. (\<lparr>coeffs = 1 # replicate 255 0\<rparr>, 1)) MODE2
        (replicate 4 \<lparr>coeffs = replicate 256 0\<rparr>) [] []))
     = (\<Sum>i < K MODE2. length (filter (\<lambda>c. c = 1)
        (coeffs (fst (polyveck_make_hint (\<lambda>a0 a1. (\<lparr>coeffs = 1 # replicate 255 0\<rparr>, 1)) MODE2
           (replicate 4 \<lparr>coeffs = replicate 256 0\<rparr>) [] []) ! i))))"
proof -
  let ?h = "replicate 4 \<lparr>coeffs = replicate 256 (0::int32)\<rparr>"
  let ?f = "\<lambda>(a0::poly) (a1::poly). (\<lparr>coeffs = 1 # replicate 255 (0::int32)\<rparr>, 1::u32)"
  have a: "length ?h = K MODE2" by simp
  have b: "\<forall>i < K MODE2. length (coeffs (fst (?f ([] ! i) ([] ! i)))) = N
              \<and> unat (snd (?f ([] ! i) ([] ! i)))
                  = length (filter (\<lambda>c. c = 1) (coeffs (fst (?f ([] ! i) ([] ! i)))))"
    by (simp add: N_def)
  have c: "[0..<4] = [0, 1, 2, 3]" by (simp add: upt_rec)
  from polyveck_make_hint_sum [OF a, of ?f "[]" "[]"] b
  have "snd (polyveck_make_hint ?f MODE2 ?h [] []) = sum_list (map (\<lambda>i. snd (?f ([] ! i) ([] ! i))) [0..<K MODE2])"
    and d: "unat (snd (polyveck_make_hint ?f MODE2 ?h [] []))
              = (\<Sum>i < K MODE2. length (filter (\<lambda>c. c = 1)
                   (coeffs (fst (polyveck_make_hint ?f MODE2 ?h [] []) ! i))))"
    by blast+
  then have "snd (polyveck_make_hint ?f MODE2 ?h [] []) = 4" by (simp add: c)
  with a d show ?thesis by (intro conjI)
qed

section \<open>Nonces of the vector samplers\<close>

text \<open>C10: for every seed and nonce, \<^verbatim>\<open>polyvecl_uniform_eta\<close> sets component \<open>i < L\<close>
  to \<^verbatim>\<open>poly_uniform_eta(seed, nonce + i)\<close> and \<^verbatim>\<open>polyveck_uniform_eta\<close> sets component
  \<open>i < K\<close> to \<^verbatim>\<open>poly_uniform_eta(seed, nonce + i)\<close>, while \<^verbatim>\<open>polyvecl_uniform_gamma1\<close>
  sets component \<open>i < L\<close> to \<^verbatim>\<open>poly_uniform_gamma1(seed, L*nonce + i)\<close>; the nonces are
  16-bit values and the arithmetic is modulo \<open>2 ^ 16\<close>.\<close>

theorem vector_sampler_nonces:
  assumes "length v = L m" and "length w = K m"
  shows "(\<forall>i < L m. polyvecl_uniform_eta poly_uniform_eta m v seed nonce ! i
            = poly_uniform_eta seed (nonce + of_nat i))
       \<and> (\<forall>i < K m. polyveck_uniform_eta poly_uniform_eta m w seed nonce ! i
            = poly_uniform_eta seed (nonce + of_nat i))
       \<and> (\<forall>i < L m. polyvecl_uniform_gamma1 poly_uniform_gamma1 m v seed nonce ! i
            = poly_uniform_gamma1 seed (of_nat (L m) * nonce + of_nat i))"
  using assms
  by (simp add: polyvecl_uniform_eta_def polyveck_uniform_eta_def polyvecl_uniform_gamma1_def
      for_upto_fold fold_eta fold_update_const gamma1_nonce_eq)

theorem vector_sampler_nonces_witness:
  "length (replicate 4 \<lparr>coeffs = []\<rparr>) = L MODE2 \<and> length (replicate 4 \<lparr>coeffs = []\<rparr>) = K MODE2
   \<and> polyvecl_uniform_eta (\<lambda>seed nonce. \<lparr>coeffs = [ucast nonce]\<rparr>) MODE2
        (replicate 4 \<lparr>coeffs = []\<rparr>) [] 65535 ! 2 = \<lparr>coeffs = [1]\<rparr>
   \<and> polyveck_uniform_eta (\<lambda>seed nonce. \<lparr>coeffs = [ucast nonce]\<rparr>) MODE2
        (replicate 4 \<lparr>coeffs = []\<rparr>) [] 65535 ! 3 = \<lparr>coeffs = [2]\<rparr>
   \<and> polyvecl_uniform_gamma1 (\<lambda>seed nonce. \<lparr>coeffs = [ucast nonce]\<rparr>) MODE2
        (replicate 4 \<lparr>coeffs = []\<rparr>) [] 3 ! 2 = \<lparr>coeffs = [14]\<rparr>"
proof -
  have a: "length (replicate 4 \<lparr>coeffs = []\<rparr>) = L MODE2" by simp
  have b: "length (replicate 4 \<lparr>coeffs = []\<rparr>) = K MODE2" by simp
  have l: "(2::nat) < L MODE2" and k: "(3::nat) < K MODE2" by simp_all
  note t = vector_sampler_nonces [OF a b,
      of "\<lambda>seed nonce. \<lparr>coeffs = [ucast nonce]\<rparr>" "[]" _ "\<lambda>seed nonce. \<lparr>coeffs = [ucast nonce]\<rparr>"]
  show ?thesis
    using t [of 65535] t [of 3] a b l k by simp
qed

section \<open>Absorbing\<close>

lemma xor_bytes_append:
  "xor_bytes st i (a @ b) = xor_bytes (xor_bytes st i a) (i + length a) b"
  by (induction a arbitrary: st i) simp_all

lemma keccak_absorb_short:
  "p + length inp < r \<Longrightarrow> keccak_absorb st p r inp = Some (xor_bytes st p inp, p + length inp)"
  by (subst keccak_absorb.simps) simp

lemma keccak_absorb_block:
  "r \<le> p + length inp \<Longrightarrow>
   keccak_absorb st p r inp =
     keccak_absorb (KeccakF1600_StatePermute (xor_bytes st p (take (r - p) inp))) 0 r (drop (r - p) inp)"
  by (subst keccak_absorb.simps) simp

lemma keccak_absorb_total:
  assumes "0 < r" and "p \<le> r"
  shows "\<exists>st'. keccak_absorb st p r inp = Some (st', (p + length inp) mod r)"
  using assms(2)
proof (induction "2 * length inp + (if p = r then 1 else 0)" arbitrary: st p inp rule: less_induct)
  case less
  show ?case
  proof (cases "r \<le> p + length inp")
    case False
    then show ?thesis by (simp add: keccak_absorb_short)
  next
    case True
    let ?st = "KeccakF1600_StatePermute (xor_bytes st p (take (r - p) inp))"
    let ?inp = "drop (r - p) inp"
    have "2 * length ?inp + (if 0 = r then 1 else 0) < 2 * length inp + (if p = r then 1 else 0)"
      using assms(1) less.prems True by auto
    then have "\<exists>st'. keccak_absorb ?st 0 r ?inp = Some (st', (0 + length ?inp) mod r)"
      by (intro less.hyps) simp_all
    moreover have "(0 + length ?inp) mod r = (p + length inp) mod r"
    proof -
      have "p + length inp = length ?inp + r" using True less.prems by simp
      then have "(p + length inp) mod r = (length ?inp + r) mod r" by (rule arg_cong)
      then show ?thesis by (simp only: mod_add_self2 add_0)
    qed
    ultimately show ?thesis by (simp add: keccak_absorb_block [OF True])
  qed
qed

lemma keccak_absorb_within_block:
  assumes "p + length x < r"
  shows "keccak_absorb st p r (x @ y) = keccak_absorb (xor_bytes st p x) (p + length x) r y"
proof (cases "r \<le> p + length x + length y")
  case True
  have "take (r - p) (x @ y) = x @ take (r - (p + length x)) y"
    and "drop (r - p) (x @ y) = drop (r - (p + length x)) y"
    using assms by simp_all
  then show ?thesis
    using True
    by (simp add: keccak_absorb_block [of r p "x @ y"] keccak_absorb_block [of r "p + length x" y]
        xor_bytes_append)
next
  case False
  then show ?thesis by (simp add: keccak_absorb_short xor_bytes_append)
qed

lemma keccak_absorb_append:
  assumes "0 < r" and "p \<le> r"
  shows "(case keccak_absorb st p r x of None \<Rightarrow> None | Some (st1, p1) \<Rightarrow> keccak_absorb st1 p1 r y)
       = keccak_absorb st p r (x @ y)"
  using assms(2)
proof (induction "2 * length x + (if p = r then 1 else 0)" arbitrary: st p x rule: less_induct)
  case less
  show ?case
  proof (cases "r \<le> p + length x")
    case False
    then show ?thesis by (simp add: keccak_absorb_short keccak_absorb_within_block)
  next
    case True
    let ?st = "KeccakF1600_StatePermute (xor_bytes st p (take (r - p) x))"
    let ?x = "drop (r - p) x"
    have "2 * length ?x + (if 0 = r then 1 else 0) < 2 * length x + (if p = r then 1 else 0)"
      using assms(1) less.prems True by auto
    then have ih: "(case keccak_absorb ?st 0 r ?x of None \<Rightarrow> None | Some (st1, p1) \<Rightarrow> keccak_absorb st1 p1 r y)
        = keccak_absorb ?st 0 r (?x @ y)"
      by (intro less.hyps) simp_all
    have le: "r \<le> p + length (x @ y)" using True by simp
    have "take (r - p) (x @ y) = take (r - p) x" "drop (r - p) (x @ y) = ?x @ y"
      using True by simp_all
    then have "keccak_absorb st p r (x @ y) = keccak_absorb ?st 0 r (?x @ y)"
      by (simp only: keccak_absorb_block [OF le])
    then show ?thesis using ih by (simp add: keccak_absorb_block [OF True])
  qed
qed

lemma keccak_absorb_fresh:
  assumes "0 < r" and "p \<le> r" and "r \<le> p + length inp" and "r dvd p + length inp"
  shows "\<exists>t. keccak_absorb st p r inp = Some (KeccakF1600_StatePermute t, 0)"
  using assms(2,3,4)
proof (induction "2 * length inp + (if p = r then 1 else 0)" arbitrary: st p inp rule: less_induct)
  case less
  let ?st = "KeccakF1600_StatePermute (xor_bytes st p (take (r - p) inp))"
  let ?inp = "drop (r - p) inp"
  have step: "keccak_absorb st p r inp = keccak_absorb ?st 0 r ?inp"
    using less.prems by (simp add: keccak_absorb_block)
  have "p + length inp = length ?inp + r" using less.prems by simp
  then have dvd: "r dvd 0 + length ?inp" using less.prems(3) by (simp add: dvd_add_left_iff)
  show ?case
  proof (cases "r \<le> length ?inp")
    case True
    have "2 * length ?inp + (if 0 = r then 1 else 0) < 2 * length inp + (if p = r then 1 else 0)"
      using assms(1) less.prems by auto
    then have "\<exists>t. keccak_absorb ?st 0 r ?inp = Some (KeccakF1600_StatePermute t, 0)"
      using True dvd by (intro less.hyps) simp_all
    then show ?thesis by (simp only: step)
  next
    case False
    then have "length ?inp = 0" using dvd by (auto dest: dvd_imp_le)
    then have "keccak_absorb ?st 0 r ?inp = Some (?st, 0)"
      using assms(1) by (simp add: keccak_absorb_short)
    then show ?thesis by (auto simp only: step)
  qed
qed

lemma replicate_25: "replicate 25 x = x # replicate 24 x"
  using replicate_Suc [of 24 x] by simp

text \<open>C3: started with a cursor of at most the rate, \<^verbatim>\<open>keccak_absorb\<close> returns, and the
  position it returns is below the rate: it is the sum of the cursor and the input
  length modulo the rate, hence 0 when that sum is a multiple of the rate. When at
  least one block was completed by such a call, the state returned is the output of
  the permutation, and \<^verbatim>\<open>keccak_finalize\<close> then XORs the domain byte into the lowest
  byte of lane 0 of that fresh block before it sets the top bit of the last lane of the
  rate.\<close>

theorem keccak_absorb_cursor:
  assumes "0 < r" and "p \<le> r"
  shows "\<exists>st' p'. keccak_absorb st p r inp = Some (st', p') \<and> p' < r
          \<and> p' = (p + length inp) mod r
          \<and> (r dvd p + length inp \<longrightarrow> p' = 0)
          \<and> (r dvd p + length inp \<and> r \<le> p + length inp \<longrightarrow>
                (\<exists>t. st' = KeccakF1600_StatePermute t)
                \<and> keccak_finalize st' p' r d =
                    (let u = st'[0 := (st' ! 0) XOR ucast d]
                     in u[r div 8 - 1 := (u ! (r div 8 - 1)) XOR push_bit 63 1]))"
proof -
  obtain st' where a: "keccak_absorb st p r inp = Some (st', (p + length inp) mod r)"
    using keccak_absorb_total [OF assms] by blast
  have b: "(p + length inp) mod r < r" using assms(1) by simp
  have c: "\<exists>t. st' = KeccakF1600_StatePermute t"
    if "r dvd p + length inp" "r \<le> p + length inp"
    using keccak_absorb_fresh [OF assms that(2,1), of st] a by auto
  have d: "keccak_finalize st' 0 r d =
       (let u = st'[0 := (st' ! 0) XOR ucast d]
        in u[r div 8 - 1 := (u ! (r div 8 - 1)) XOR push_bit 63 1])"
    by (simp add: keccak_finalize_def xor_byte_def)
  show ?thesis
    using a b c d by (intro exI [of _ st'] exI [of _ "(p + length inp) mod r"]) auto
qed

theorem keccak_absorb_cursor_witness:
  "(0::nat) < 168 \<and> (0::nat) \<le> 168 \<and> (168::nat) dvd 0 + length (replicate 168 (0::u8))
   \<and> (\<exists>t. keccak_absorb (replicate 25 0) 0 168 (replicate 168 0)
          = Some (KeccakF1600_StatePermute t, 0))
   \<and> keccak_absorb (replicate 25 0) 0 168 [1, 2, 3]
          = Some (0x030201 # replicate 24 0, 3)"
proof -
  have a: "(0::nat) < 168" and b: "(0::nat) \<le> 168" by simp_all
  have c: "(168::nat) dvd 0 + length (replicate 168 (0::u8))"
    and c': "(168::nat) \<le> 0 + length (replicate 168 (0::u8))" by simp_all
  have e: "xor_bytes (replicate 25 0) 0 [1, 2, 3] = 0x030201 # replicate 24 0"
    by (simp add: xor_byte_def replicate_25)
  have "\<exists>t. keccak_absorb (replicate 25 0) 0 168 (replicate 168 0)
          = Some (KeccakF1600_StatePermute t, 0)"
    using keccak_absorb_cursor [OF a b, where st = "replicate 25 0" and inp = "replicate 168 0" and d = 0] c c' by auto
  moreover have "keccak_absorb (replicate 25 0) 0 168 [1, 2, 3] = Some (0x030201 # replicate 24 0, 3)"
    using keccak_absorb_cursor [OF a b, where st = "replicate 25 0" and inp = "[1, 2, 3]" and d = 0] e
    by (simp add: keccak_absorb_short)
  ultimately show ?thesis using a b c by (intro conjI)
qed

text \<open>C4: for every state, cursor of at most the rate and byte strings \<open>x\<close> and \<open>y\<close>,
  absorbing \<open>x\<close> and then \<open>y\<close> from the cursor returned gives the state and cursor
  that absorbing \<open>x\<close> followed by \<open>y\<close> in one call gives; the same holds for
  \<^verbatim>\<open>shake128_absorb\<close> on the state record.\<close>

theorem keccak_absorb_concat:
  assumes "0 < r" and "p \<le> r"
  shows "(case keccak_absorb st p r x of None \<Rightarrow> None
          | Some (st1, p1) \<Rightarrow> keccak_absorb st1 p1 r y) = keccak_absorb st p r (x @ y)
       \<and> keccak_absorb st p r (x @ y) \<noteq> None
       \<and> (r = SHAKE128_RATE \<longrightarrow>
            (case shake128_absorb \<lparr>s = st, pos = p\<rparr> x of None \<Rightarrow> None
             | Some state1 \<Rightarrow> shake128_absorb state1 y) = shake128_absorb \<lparr>s = st, pos = p\<rparr> (x @ y))"
proof -
  have a: "(case keccak_absorb st p r x of None \<Rightarrow> None
          | Some (st1, p1) \<Rightarrow> keccak_absorb st1 p1 r y) = keccak_absorb st p r (x @ y)"
    using assms by (rule keccak_absorb_append)
  have b: "keccak_absorb st p r (x @ y) \<noteq> None"
    using keccak_absorb_total [OF assms, of st "x @ y"] by auto
  have c: "(case shake128_absorb \<lparr>s = st, pos = p\<rparr> x of None \<Rightarrow> None
             | Some state1 \<Rightarrow> shake128_absorb state1 y) = shake128_absorb \<lparr>s = st, pos = p\<rparr> (x @ y)"
    if "r = SHAKE128_RATE"
    using a that by (auto simp: shake128_absorb_def split: option.splits)
  show ?thesis using a b c by blast
qed

theorem keccak_absorb_concat_witness:
  "(0::nat) < SHAKE128_RATE \<and> (0::nat) \<le> SHAKE128_RATE
   \<and> (case keccak_absorb (replicate 25 0) 0 SHAKE128_RATE [1, 2] of None \<Rightarrow> None
       | Some (st1, p1) \<Rightarrow> keccak_absorb st1 p1 SHAKE128_RATE [3])
     = Some (0x030201 # replicate 24 0, 3)
   \<and> keccak_absorb (replicate 25 0) 0 SHAKE128_RATE ([1, 2] @ [3]) = Some (0x030201 # replicate 24 0, 3)
   \<and> (case shake128_absorb \<lparr>s = replicate 25 0, pos = 0\<rparr> [1, 2] of None \<Rightarrow> None
       | Some state1 \<Rightarrow> shake128_absorb state1 [3])
     = shake128_absorb \<lparr>s = replicate 25 0, pos = 0\<rparr> ([1, 2] @ [3])"
proof -
  have a: "(0::nat) < SHAKE128_RATE" and b: "(0::nat) \<le> SHAKE128_RATE"
    by (simp_all add: SHAKE128_RATE_def)
  have e: "xor_bytes (replicate 25 0) 0 [1, 2, 3] = 0x030201 # replicate 24 0"
    by (simp add: xor_byte_def replicate_25)
  have f: "keccak_absorb (replicate 25 0) 0 SHAKE128_RATE ([1, 2] @ [3]) = Some (0x030201 # replicate 24 0, 3)"
    using e by (simp add: keccak_absorb_short SHAKE128_RATE_def)
  show ?thesis
    using keccak_absorb_concat [OF a b, where st = "replicate 25 0" and x = "[1, 2]" and y = "[3]"] a b f by simp
qed

section \<open>The permutation\<close>

lemma word_rotl_0_eq: "word_rotl 0 w = w"
  by (rule bit_word_eqI) (simp add: bit_simps)

lemma ROL_rotl:
  assumes "0 < n" and "n < 64"
  shows "ROL a n = word_rotl n a"
proof (rule bit_word_eqI)
  fix k
  assume "k < LENGTH(64)"
  then have k: "k < 64" by simp
  have l: "bit (push_bit n a) k \<longleftrightarrow> n \<le> k \<and> bit a (k - n)"
    using k by (simp add: bit_simps)
  have r: "bit (drop_bit (64 - n) a) k \<longleftrightarrow> bit a (64 - n + k)"
    by (simp add: bit_simps)
  have rot: "bit (word_rotl n a) k \<longleftrightarrow> bit a ((k + (64 - n)) mod 64)"
    using k assms by (simp add: bit_simps)
  have x: "bit (ROL a n) k \<longleftrightarrow> bit (push_bit n a) k \<noteq> bit (drop_bit (64 - n) a) k"
    by (simp add: ROL_def bit_simps)
  show "bit (ROL a n) k = bit (word_rotl n a) k"
  proof (cases "n \<le> k")
    case True
    have "k + (64 - n) = (k - n) + 64" using True assms by simp
    then have "(k + (64 - n)) mod 64 = ((k - n) + 64) mod 64" by (rule arg_cong)
    also have "\<dots> = k - n" using k by (simp only: mod_add_self2) simp
    finally have m: "(k + (64 - n)) mod 64 = k - n" .
    have "64 \<le> 64 - n + k" using True assms by simp
    then have "\<not> bit a (64 - n + k)"
      by (auto dest!: bit_imp_le_length)
    then show ?thesis
      using True by (simp only: x l r rot m) simp
  next
    case False
    then have "k + (64 - n) < 64" using assms by simp
    then have m: "(k + (64 - n)) mod 64 = 64 - n + k" by (simp add: add.commute)
    show ?thesis
      using False by (simp only: x l r rot m) simp
  qed
qed

lemma ROL_eval: "ROL a n = push_bit n (take_bit (64 - n) a) XOR drop_bit (64 - n) a"
  unfolding ROL_def
  by (rule arg_cong2 [where f = "(XOR)"], rule bit_word_eqI) (auto simp: bit_simps)


lemma upt_25:
  "[0..<25] = [0, 1, 2, 3, 4, 5, 6, 7, 8, 9, 10, 11, 12, 13, 14, 15, 16, 17, 18, 19, 20, 21, 22, 23, 24]"
  by (simp add: upt_rec)

lemma replicate_25_list:
  "replicate 25 x = [x, x, x, x, x, x, x, x, x, x, x, x, x, x, x, x, x, x, x, x, x, x, x, x, x]"
  by (simp add: eval_nat_numeral)

lemma list_update_Cons_numeral: "(x # xs)[numeral k := y] = x # xs[pred_numeral k := y]"
  by (simp add: numeral_eq_Suc)

lemma lanes_spec_list:
  "lanes_spec f =
    [f 0 0, f 1 0, f 2 0, f 3 0, f 4 0,
     f 0 1, f 1 1, f 2 1, f 3 1, f 4 1,
     f 0 2, f 1 2, f 2 2, f 3 2, f 4 2,
     f 0 3, f 1 3, f 2 3, f 3 3, f 4 3,
     f 0 4, f 1 4, f 2 4, f 3 4, f 4 4]"
  by (simp add: lanes_spec_def upt_25)

lemma theta_spec_list:
  "theta_spec A =
    [A ! 0 XOR (A ! 4 XOR A ! 9 XOR A ! 14 XOR A ! 19 XOR A ! 24) XOR word_rotl 1 (A ! 1 XOR A ! 6 XOR A ! 11 XOR A ! 16 XOR A ! 21),
     A ! 1 XOR (A ! 0 XOR A ! 5 XOR A ! 10 XOR A ! 15 XOR A ! 20) XOR word_rotl 1 (A ! 2 XOR A ! 7 XOR A ! 12 XOR A ! 17 XOR A ! 22),
     A ! 2 XOR (A ! 1 XOR A ! 6 XOR A ! 11 XOR A ! 16 XOR A ! 21) XOR word_rotl 1 (A ! 3 XOR A ! 8 XOR A ! 13 XOR A ! 18 XOR A ! 23),
     A ! 3 XOR (A ! 2 XOR A ! 7 XOR A ! 12 XOR A ! 17 XOR A ! 22) XOR word_rotl 1 (A ! 4 XOR A ! 9 XOR A ! 14 XOR A ! 19 XOR A ! 24),
     A ! 4 XOR (A ! 3 XOR A ! 8 XOR A ! 13 XOR A ! 18 XOR A ! 23) XOR word_rotl 1 (A ! 0 XOR A ! 5 XOR A ! 10 XOR A ! 15 XOR A ! 20),
     A ! 5 XOR (A ! 4 XOR A ! 9 XOR A ! 14 XOR A ! 19 XOR A ! 24) XOR word_rotl 1 (A ! 1 XOR A ! 6 XOR A ! 11 XOR A ! 16 XOR A ! 21),
     A ! 6 XOR (A ! 0 XOR A ! 5 XOR A ! 10 XOR A ! 15 XOR A ! 20) XOR word_rotl 1 (A ! 2 XOR A ! 7 XOR A ! 12 XOR A ! 17 XOR A ! 22),
     A ! 7 XOR (A ! 1 XOR A ! 6 XOR A ! 11 XOR A ! 16 XOR A ! 21) XOR word_rotl 1 (A ! 3 XOR A ! 8 XOR A ! 13 XOR A ! 18 XOR A ! 23),
     A ! 8 XOR (A ! 2 XOR A ! 7 XOR A ! 12 XOR A ! 17 XOR A ! 22) XOR word_rotl 1 (A ! 4 XOR A ! 9 XOR A ! 14 XOR A ! 19 XOR A ! 24),
     A ! 9 XOR (A ! 3 XOR A ! 8 XOR A ! 13 XOR A ! 18 XOR A ! 23) XOR word_rotl 1 (A ! 0 XOR A ! 5 XOR A ! 10 XOR A ! 15 XOR A ! 20),
     A ! 10 XOR (A ! 4 XOR A ! 9 XOR A ! 14 XOR A ! 19 XOR A ! 24) XOR word_rotl 1 (A ! 1 XOR A ! 6 XOR A ! 11 XOR A ! 16 XOR A ! 21),
     A ! 11 XOR (A ! 0 XOR A ! 5 XOR A ! 10 XOR A ! 15 XOR A ! 20) XOR word_rotl 1 (A ! 2 XOR A ! 7 XOR A ! 12 XOR A ! 17 XOR A ! 22),
     A ! 12 XOR (A ! 1 XOR A ! 6 XOR A ! 11 XOR A ! 16 XOR A ! 21) XOR word_rotl 1 (A ! 3 XOR A ! 8 XOR A ! 13 XOR A ! 18 XOR A ! 23),
     A ! 13 XOR (A ! 2 XOR A ! 7 XOR A ! 12 XOR A ! 17 XOR A ! 22) XOR word_rotl 1 (A ! 4 XOR A ! 9 XOR A ! 14 XOR A ! 19 XOR A ! 24),
     A ! 14 XOR (A ! 3 XOR A ! 8 XOR A ! 13 XOR A ! 18 XOR A ! 23) XOR word_rotl 1 (A ! 0 XOR A ! 5 XOR A ! 10 XOR A ! 15 XOR A ! 20),
     A ! 15 XOR (A ! 4 XOR A ! 9 XOR A ! 14 XOR A ! 19 XOR A ! 24) XOR word_rotl 1 (A ! 1 XOR A ! 6 XOR A ! 11 XOR A ! 16 XOR A ! 21),
     A ! 16 XOR (A ! 0 XOR A ! 5 XOR A ! 10 XOR A ! 15 XOR A ! 20) XOR word_rotl 1 (A ! 2 XOR A ! 7 XOR A ! 12 XOR A ! 17 XOR A ! 22),
     A ! 17 XOR (A ! 1 XOR A ! 6 XOR A ! 11 XOR A ! 16 XOR A ! 21) XOR word_rotl 1 (A ! 3 XOR A ! 8 XOR A ! 13 XOR A ! 18 XOR A ! 23),
     A ! 18 XOR (A ! 2 XOR A ! 7 XOR A ! 12 XOR A ! 17 XOR A ! 22) XOR word_rotl 1 (A ! 4 XOR A ! 9 XOR A ! 14 XOR A ! 19 XOR A ! 24),
     A ! 19 XOR (A ! 3 XOR A ! 8 XOR A ! 13 XOR A ! 18 XOR A ! 23) XOR word_rotl 1 (A ! 0 XOR A ! 5 XOR A ! 10 XOR A ! 15 XOR A ! 20),
     A ! 20 XOR (A ! 4 XOR A ! 9 XOR A ! 14 XOR A ! 19 XOR A ! 24) XOR word_rotl 1 (A ! 1 XOR A ! 6 XOR A ! 11 XOR A ! 16 XOR A ! 21),
     A ! 21 XOR (A ! 0 XOR A ! 5 XOR A ! 10 XOR A ! 15 XOR A ! 20) XOR word_rotl 1 (A ! 2 XOR A ! 7 XOR A ! 12 XOR A ! 17 XOR A ! 22),
     A ! 22 XOR (A ! 1 XOR A ! 6 XOR A ! 11 XOR A ! 16 XOR A ! 21) XOR word_rotl 1 (A ! 3 XOR A ! 8 XOR A ! 13 XOR A ! 18 XOR A ! 23),
     A ! 23 XOR (A ! 2 XOR A ! 7 XOR A ! 12 XOR A ! 17 XOR A ! 22) XOR word_rotl 1 (A ! 4 XOR A ! 9 XOR A ! 14 XOR A ! 19 XOR A ! 24),
     A ! 24 XOR (A ! 3 XOR A ! 8 XOR A ! 13 XOR A ! 18 XOR A ! 23) XOR word_rotl 1 (A ! 0 XOR A ! 5 XOR A ! 10 XOR A ! 15 XOR A ! 20)]"
  by (simp add: theta_spec_def lanes_spec_list lane_spec_def Let_def numeral_2_eq_2)

lemma rho_spec_list:
  "rho_spec [a0, a1, a2, a3, a4, a5, a6, a7, a8, a9, a10, a11, a12, a13, a14, a15, a16, a17, a18,
     a19, a20, a21, a22, a23, a24] =
    [word_rotl 0 a0, word_rotl 1 a1, word_rotl 62 a2, word_rotl 28 a3, word_rotl 27 a4,
     word_rotl 36 a5, word_rotl 44 a6, word_rotl 6 a7, word_rotl 55 a8, word_rotl 20 a9,
     word_rotl 3 a10, word_rotl 10 a11, word_rotl 43 a12, word_rotl 25 a13, word_rotl 39 a14,
     word_rotl 41 a15, word_rotl 45 a16, word_rotl 15 a17, word_rotl 21 a18, word_rotl 8 a19,
     word_rotl 18 a20, word_rotl 2 a21, word_rotl 61 a22, word_rotl 56 a23, word_rotl 14 a24]"
  by (simp add: rho_spec_def lanes_spec_list lane_spec_def rho_offsets_spec_def)

lemma pi_spec_list:
  "pi_spec [a0, a1, a2, a3, a4, a5, a6, a7, a8, a9, a10, a11, a12, a13, a14, a15, a16, a17, a18,
     a19, a20, a21, a22, a23, a24] =
    [a0, a6, a12, a18, a24,
     a3, a9, a10, a16, a22,
     a1, a7, a13, a19, a20,
     a4, a5, a11, a17, a23,
     a2, a8, a14, a15, a21]"
  by (simp add: pi_spec_def upt_25 lane_spec_def Let_def replicate_25_list list_update_Cons_numeral)

lemma chi_spec_list:
  "chi_spec [a0, a1, a2, a3, a4, a5, a6, a7, a8, a9, a10, a11, a12, a13, a14, a15, a16, a17, a18,
     a19, a20, a21, a22, a23, a24] =
    [a0 XOR (NOT a1) AND a2, a1 XOR (NOT a2) AND a3, a2 XOR (NOT a3) AND a4, a3 XOR (NOT a4) AND a0, a4 XOR (NOT a0) AND a1,
     a5 XOR (NOT a6) AND a7, a6 XOR (NOT a7) AND a8, a7 XOR (NOT a8) AND a9, a8 XOR (NOT a9) AND a5, a9 XOR (NOT a5) AND a6,
     a10 XOR (NOT a11) AND a12, a11 XOR (NOT a12) AND a13, a12 XOR (NOT a13) AND a14, a13 XOR (NOT a14) AND a10, a14 XOR (NOT a10) AND a11,
     a15 XOR (NOT a16) AND a17, a16 XOR (NOT a17) AND a18, a17 XOR (NOT a18) AND a19, a18 XOR (NOT a19) AND a15, a19 XOR (NOT a15) AND a16,
     a20 XOR (NOT a21) AND a22, a21 XOR (NOT a22) AND a23, a22 XOR (NOT a23) AND a24, a23 XOR (NOT a24) AND a20, a24 XOR (NOT a20) AND a21]"
  by (simp add: chi_spec_def lanes_spec_list lane_spec_def)

end
